theory Spec2Isabelle
  imports Complex_Main "HOL-Library.Word" "HOL-Library.Product_Lexorder"
    "HOL-Library.Finite_Map" "HOL-Library.List_Lexorder" "HOL-Library.Char_ord"
begin

section \<open>Conventions of the embedding\<close>

text \<open>
  The development embeds the three headers \<^verbatim>\<open>sq.h\<close>, \<^verbatim>\<open>hnsw.h\<close> and \<^verbatim>\<open>database.h\<close>.

  \<^item> A C++ \<^verbatim>\<open>float\<close> is a \<^typ>\<open>real\<close>: rounding, infinities and NaN are outside the model.
  \<^item> \<^verbatim>\<open>int\<close> is \<^typ>\<open>int\<close>, \<^verbatim>\<open>size_t\<close> and \<^verbatim>\<open>uint32_t\<close> are \<^typ>\<open>nat\<close>; the implicit
    conversions the source performs between them are written out
    (\<open>size_t_of_int\<close>, \<open>uint32_of_int\<close>, \<open>uint32_of_size_t\<close>, \<open>int_of_uint32\<close>).
  \<^item> A C++ exception is a value \<open>Inl e\<close>. A function that mutates its object returns the
    object next to the outcome, so that the state left behind by a \<^verbatim>\<open>throw\<close> is visible.
  \<^item> Undefined behaviour (an index out of range, \<^verbatim>\<open>top()\<close> of an empty queue, a read past
    the end of the file) is a value too: \<open>OutOfBounds\<close>, \<open>EmptyTop\<close>, \<open>ShortRead\<close>.
    Nothing is claimed about the state returned next to one of these.
  \<^item> The pointer \<^verbatim>\<open>sq\<close> held by \<^verbatim>\<open>HNSW\<close> and by \<^verbatim>\<open>VectorStorage\<close> always aliases the
    quantizer owned by the \<^verbatim>\<open>Database\<close> (constructor, \<^verbatim>\<open>rebuild_index\<close> and \<^verbatim>\<open>load\<close>
    set all three together), so the pointee is passed to every function as the argument
    \<open>sq\<close>, with \<open>None\<close> for \<^verbatim>\<open>nullptr\<close>.
  \<^item> \<^verbatim>\<open>random_level()\<close> is modelled by its result, which the caller supplies
    (\<open>floor (- ln u * m_L)\<close> is a natural number for \<open>M \<ge> 2\<close>).
\<close>

datatype error =
    DimensionMismatch    \<comment> \<open>\<^verbatim>\<open>std::invalid_argument("Vector dimension mismatch.")\<close>\<close>
  | ReadOnlyViolation    \<comment> \<open>\<^verbatim>\<open>std::runtime_error("Database is in read-only mode.")\<close>\<close>
  | QuantizerNotTrained  \<comment> \<open>\<^verbatim>\<open>std::runtime_error("Quantizer is not trained.")\<close>\<close>
  | QuantizerNotEnabled  \<comment> \<open>\<^verbatim>\<open>std::runtime_error("Quantizer is not enabled.")\<close>\<close>
  | UnknownMetric        \<comment> \<open>\<^verbatim>\<open>std::runtime_error("Unknown distance metric.")\<close>\<close>
  | LengthError          \<comment> \<open>\<^verbatim>\<open>std::length_error\<close> of \<^verbatim>\<open>vector::resize\<close>\<close>
  | OutOfBounds          \<comment> \<open>undefined behaviour: index out of range\<close>
  | EmptyTop             \<comment> \<open>undefined behaviour: \<^verbatim>\<open>top()\<close> of an empty \<^verbatim>\<open>priority_queue\<close>\<close>
  | ShortRead            \<comment> \<open>undefined behaviour: a value used after a failed \<^verbatim>\<open>ifs.read\<close>\<close>

definition size_t_of_int :: "int \<Rightarrow> nat" where
  "size_t_of_int i = nat (i mod 2 ^ 64)"

definition uint32_of_int :: "int \<Rightarrow> nat" where
  "uint32_of_int i = nat (i mod 2 ^ 32)"

definition uint32_of_size_t :: "nat \<Rightarrow> nat" where
  "uint32_of_size_t n = n mod 2 ^ 32"

definition int_of_uint32 :: "nat \<Rightarrow> int" where
  "int_of_uint32 n = (if n < 2 ^ 31 then int n else int n - 2 ^ 32)"

text \<open>\<^verbatim>\<open>v[i]\<close> on a \<^verbatim>\<open>std::vector\<close>.\<close>

definition vec_at :: "'a list \<Rightarrow> nat \<Rightarrow> error + 'a" where
  "vec_at xs i = (if i < length xs then Inr (xs ! i) else Inl OutOfBounds)"

fun bind_err :: "error + 'a \<Rightarrow> ('a \<Rightarrow> error + 'b) \<Rightarrow> error + 'b" where
  "bind_err (Inl e) f = Inl e"
| "bind_err (Inr x) f = f x"

section \<open>sq.h: the scalar quantizer\<close>

record ScalarQuantizer =
  original_dim :: nat
  mins :: "real list"
  maxs :: "real list"

definition ScalarQuantizer_new :: "nat \<Rightarrow> ScalarQuantizer" where
  "ScalarQuantizer_new d = \<lparr>original_dim = d, mins = [], maxs = []\<rparr>"

definition is_trained :: "ScalarQuantizer \<Rightarrow> bool" where
  "is_trained q = (mins q \<noteq> [])"

text \<open>
  One pass of the inner loop of \<^verbatim>\<open>train\<close> over a training vector: component \<open>i\<close> of the
  bounds moves to \<open>vec[i]\<close> when that is smaller (larger). \<open>vec[i]\<close> is read for every
  \<open>i < original_dim\<close>.
\<close>

definition train_vec :: "nat \<Rightarrow> real list \<Rightarrow> real list \<times> real list \<Rightarrow> error + real list \<times> real list" where
  "train_vec d vec b =
     (if length vec < d then Inl OutOfBounds
      else Inr (map2 (\<lambda>v m. if v < m then v else m) (take d vec) (fst b),
                map2 (\<lambda>v m. if v > m then v else m) (take d vec) (snd b)))"

fun train_loop :: "nat \<Rightarrow> real list list \<Rightarrow> real list \<times> real list \<Rightarrow> error + real list \<times> real list" where
  "train_loop d [] b = Inr b"
| "train_loop d (vec # vecs) b =
     (case train_vec d vec b of Inl e \<Rightarrow> Inl e | Inr b' \<Rightarrow> train_loop d vecs b')"

definition train :: "ScalarQuantizer \<Rightarrow> real list list \<Rightarrow> error + ScalarQuantizer" where
  "train q training_data =
     (case training_data of
        [] \<Rightarrow> Inr q
      | first # _ \<Rightarrow>
          if length first < original_dim q then Inl OutOfBounds
          else (case train_loop (original_dim q) training_data
                       (take (original_dim q) first, take (original_dim q) first) of
                  Inl e \<Rightarrow> Inl e
                | Inr b \<Rightarrow> Inr (q\<lparr>mins := fst b, maxs := snd b\<rparr>)))"

text \<open>\<^verbatim>\<open>std::round\<close>: to the nearest integer, halves away from zero.\<close>

definition c_round :: "real \<Rightarrow> int" where
  "c_round x = (if 0 \<le> x then \<lfloor>x + 1 / 2\<rfloor> else \<lceil>x - 1 / 2\<rceil>)"

definition encode_component :: "real \<Rightarrow> real \<Rightarrow> real \<Rightarrow> 8 word" where
  "encode_component v mn mx =
     (let range = mx - mn in
      if range = 0 then 0
      else let scaled = (v - mn) / range in word_of_int (c_round (scaled * 255)))"

definition decode_component :: "8 word \<Rightarrow> real \<Rightarrow> real \<Rightarrow> real" where
  "decode_component b mn mx =
     (let range = mx - mn in
      if range = 0 then mn else mn + (real (unat b) / 255) * range)"

text \<open>
  \<^verbatim>\<open>encode\<close> and \<^verbatim>\<open>decode\<close> read \<open>vector[i]\<close>, \<open>mins[i]\<close> and \<open>maxs[i]\<close> for every
  \<open>i < original_dim\<close>.
\<close>

definition encode :: "ScalarQuantizer \<Rightarrow> real list \<Rightarrow> error + 8 word list" where
  "encode q vector =
     (if mins q = [] \<or> maxs q = [] then Inl QuantizerNotTrained
      else if length vector < original_dim q \<or> length (mins q) < original_dim q
              \<or> length (maxs q) < original_dim q then Inl OutOfBounds
      else Inr (map (\<lambda>i. encode_component (vector ! i) (mins q ! i) (maxs q ! i))
                  [0..<original_dim q]))"

definition decode :: "ScalarQuantizer \<Rightarrow> 8 word list \<Rightarrow> error + real list" where
  "decode q vector =
     (if mins q = [] \<or> maxs q = [] then Inl QuantizerNotTrained
      else if length vector < original_dim q \<or> length (mins q) < original_dim q
              \<or> length (maxs q) < original_dim q then Inl OutOfBounds
      else Inr (map (\<lambda>i. decode_component (vector ! i) (mins q ! i) (maxs q ! i))
                  [0..<original_dim q]))"

definition sq_calculate_distance :: "ScalarQuantizer \<Rightarrow> real list \<Rightarrow> 8 word list \<Rightarrow> error + real" where
  "sq_calculate_distance q query_vector encoded_vector =
     (case decode q encoded_vector of
        Inl e \<Rightarrow> Inl e
      | Inr decoded_vector \<Rightarrow>
          if length query_vector < original_dim q then Inl OutOfBounds
          else Inr (\<Sum>i\<leftarrow>[0..<original_dim q]. (query_vector ! i - decoded_vector ! i)\<^sup>2))"

section \<open>hnsw.h: storage, nodes and distances\<close>

type_synonym Metadata = "(string, string) fmap"

text \<open>A \<^verbatim>\<open>FilterFunc\<close> is a \<^verbatim>\<open>std::function\<close>; \<open>None\<close> is the empty one (\<^verbatim>\<open>nullptr\<close>).\<close>

type_synonym FilterFunc = "(Metadata \<Rightarrow> bool) option"

text \<open>\<open>InvalidMetric\<close> stands for an enum value outside the three enumerators, as
  \<^verbatim>\<open>load\<close> can read one from a file.\<close>

datatype DistanceMetric = L2 | COSINE | IP | InvalidMetric int

datatype Include = ID | DISTANCE | METADATA | VECTOR

text \<open>\<^verbatim>\<open>QueryResult result;\<close> leaves \<^verbatim>\<open>distance\<close> uninitialised: \<open>None\<close> until assigned.\<close>

record QueryResult =
  qr_id :: int
  qr_distance :: "real option"
  qr_metadata :: Metadata
  qr_vector :: "real list"

record Node =
  node_id :: nat
  max_layer :: int
  neighbors :: "int list list"

text \<open>The constructor resizes \<^verbatim>\<open>neighbors\<close> to \<^verbatim>\<open>max_layer + 1\<close>, an \<^verbatim>\<open>int\<close> converted to
  \<^verbatim>\<open>size_t\<close>: a negative value exceeds \<^verbatim>\<open>max_size()\<close>.\<close>

definition Node_new :: "nat \<Rightarrow> int \<Rightarrow> error + Node" where
  "Node_new i l =
     (if l + 1 < 0 then Inl LengthError
      else Inr \<lparr>node_id = i, max_layer = l, neighbors = replicate (nat (l + 1)) []\<rparr>)"

record VectorStorage =
  vector_dimension :: nat
  vectors :: "real list list"
  metadata :: "Metadata list"
  encoded_vectors :: "8 word list list"

definition VectorStorage_new :: "nat \<Rightarrow> VectorStorage" where
  "VectorStorage_new d = \<lparr>vector_dimension = d, vectors = [], metadata = [], encoded_vectors = []\<rparr>"

definition add_vector ::
  "VectorStorage \<Rightarrow> ScalarQuantizer option \<Rightarrow> real list \<Rightarrow> Metadata \<Rightarrow> (error + unit) \<times> VectorStorage" where
  "add_vector vs sq vec meta =
     (if length vec \<noteq> vector_dimension vs then (Inl DimensionMismatch, vs)
      else
        let vs1 = vs\<lparr>vectors := vectors vs @ [vec], metadata := metadata vs @ [meta]\<rparr> in
        case sq of
          None \<Rightarrow> (Inr (), vs1)
        | Some q \<Rightarrow>
            if is_trained q then
              (case encode q vec of
                 Inl e \<Rightarrow> (Inl e, vs1)
               | Inr enc \<Rightarrow> (Inr (), vs1\<lparr>encoded_vectors := encoded_vectors vs1 @ [enc]\<rparr>))
            else (Inr (), vs1))"

fun map_err :: "('a \<Rightarrow> error + 'b) \<Rightarrow> 'a list \<Rightarrow> error + 'b list" where
  "map_err f [] = Inr []"
| "map_err f (x # xs) =
     (case f x of
        Inl e \<Rightarrow> Inl e
      | Inr y \<Rightarrow> (case map_err f xs of Inl e \<Rightarrow> Inl e | Inr ys \<Rightarrow> Inr (y # ys)))"

definition encode_all_vectors :: "VectorStorage \<Rightarrow> ScalarQuantizer option \<Rightarrow> error + VectorStorage" where
  "encode_all_vectors vs sq =
     (case sq of
        None \<Rightarrow> Inr vs
      | Some q \<Rightarrow>
          if \<not> is_trained q then Inr vs
          else (case map_err (encode q) (vectors vs) of
                  Inl e \<Rightarrow> Inl e
                | Inr encs \<Rightarrow> Inr (vs\<lparr>encoded_vectors := encs\<rparr>)))"

definition get_vector :: "VectorStorage \<Rightarrow> nat \<Rightarrow> error + real list" where
  "get_vector vs index = vec_at (vectors vs) index"

definition get_encoded_vector :: "VectorStorage \<Rightarrow> ScalarQuantizer option \<Rightarrow> nat \<Rightarrow> error + 8 word list" where
  "get_encoded_vector vs sq index =
     (if sq = None then Inl QuantizerNotEnabled else vec_at (encoded_vectors vs) index)"

definition get_metadata :: "VectorStorage \<Rightarrow> nat \<Rightarrow> error + Metadata" where
  "get_metadata vs index = vec_at (metadata vs) index"

record HNSW =
  vector_storage :: VectorStorage
  nodes :: "Node list"
  entry_point_id :: int
  M :: int
  efConstruction :: int
  efSearch :: int
  distance_metric :: DistanceMetric
  deleted_nodes :: "nat set"

definition HNSW_new :: "nat \<Rightarrow> int \<Rightarrow> int \<Rightarrow> int \<Rightarrow> DistanceMetric \<Rightarrow> HNSW" where
  "HNSW_new d m efc efs metric =
     \<lparr>vector_storage = VectorStorage_new d, nodes = [], entry_point_id = - 1, M = m,
      efConstruction = efc, efSearch = efs, distance_metric = metric, deleted_nodes = {}\<rparr>"

text \<open>The constructor used by \<^verbatim>\<open>load\<close>: the entry point is the id of the last node.\<close>

definition HNSW_loaded ::
  "int \<Rightarrow> int \<Rightarrow> int \<Rightarrow> DistanceMetric \<Rightarrow> Node list \<Rightarrow> VectorStorage \<Rightarrow> nat set \<Rightarrow> HNSW" where
  "HNSW_loaded m efc efs metric ns vs deleted =
     \<lparr>vector_storage = vs, nodes = ns,
      entry_point_id = (if ns = [] then - 1 else int_of_uint32 (node_id (last ns))),
      M = m, efConstruction = efc, efSearch = efs, distance_metric = metric,
      deleted_nodes = deleted\<rparr>"

definition set_quantizer :: "HNSW \<Rightarrow> HNSW" where
  "set_quantizer h =
     h\<lparr>vector_storage := VectorStorage_new (vector_dimension (vector_storage h))\<rparr>"

text \<open>The three kernels read \<open>b[i]\<close> for every \<open>i < a.size()\<close>.\<close>

definition inner_product :: "real list \<Rightarrow> real list \<Rightarrow> real" where
  "inner_product a b = (\<Sum>(x, y)\<leftarrow>zip a b. x * y)"

definition calculate_l2_distance :: "real list \<Rightarrow> real list \<Rightarrow> error + real" where
  "calculate_l2_distance a b =
     (if length b < length a then Inl OutOfBounds
      else Inr (\<Sum>(x, y)\<leftarrow>zip a b. (x - y) * (x - y)))"

definition calculate_cosine_distance :: "real list \<Rightarrow> real list \<Rightarrow> error + real" where
  "calculate_cosine_distance a b =
     (if length b < length a then Inl OutOfBounds
      else
        let dot_product = inner_product a b;
            norm_a = sqrt (inner_product a a);
            norm_b = sqrt (inner_product b b)
        in if norm_a = 0 \<or> norm_b = 0 then Inr 1
           else Inr (1 - dot_product / (norm_a * norm_b)))"

definition calculate_inner_product_distance :: "real list \<Rightarrow> real list \<Rightarrow> error + real" where
  "calculate_inner_product_distance a b =
     (if length b < length a then Inl OutOfBounds else Inr (- inner_product a b))"

definition calculate_distance_vec :: "DistanceMetric \<Rightarrow> real list \<Rightarrow> real list \<Rightarrow> error + real" where
  "calculate_distance_vec metric a b =
     (case metric of
        L2 \<Rightarrow> calculate_l2_distance a b
      | COSINE \<Rightarrow> calculate_cosine_distance a b
      | IP \<Rightarrow> calculate_inner_product_distance a b
      | InvalidMetric _ \<Rightarrow> Inl UnknownMetric)"

text \<open>The overload \<^verbatim>\<open>calculate_distance(query, node_id)\<close>; the \<^verbatim>\<open>int\<close> id indexes the
  storage as a \<^verbatim>\<open>size_t\<close>.\<close>

definition calculate_distance :: "HNSW \<Rightarrow> ScalarQuantizer option \<Rightarrow> real list \<Rightarrow> int \<Rightarrow> error + real" where
  "calculate_distance h sq query i =
     (case sq of
        None \<Rightarrow>
          bind_err (get_vector (vector_storage h) (size_t_of_int i))
            (calculate_distance_vec (distance_metric h) query)
      | Some q \<Rightarrow>
          if is_trained q then
            bind_err (get_encoded_vector (vector_storage h) sq (size_t_of_int i))
              (sq_calculate_distance q query)
          else
            bind_err (get_vector (vector_storage h) (size_t_of_int i))
              (calculate_distance_vec (distance_metric h) query))"

section \<open>hnsw.h: search_layer\<close>

type_synonym Candidate = "real \<times> int"

text \<open>
  Both priority queues hold pairs ordered lexicographically and are kept as ascending
  lists: \<^verbatim>\<open>push\<close> is \<open>insort\<close>; the min-heap \<^verbatim>\<open>candidate_queue\<close> has its \<^verbatim>\<open>top()\<close> at the
  head, the max-heap \<^verbatim>\<open>result_queue\<close> at the end.
\<close>

record search_state =
  candidate_queue :: "Candidate list"
  result_queue :: "Candidate list"
  visited_nodes :: "int set"

definition top_max :: "Candidate list \<Rightarrow> error + Candidate" where
  "top_max q = (if q = [] then Inl EmptyTop else Inr (last q))"

text \<open>\<^verbatim>\<open>result_queue.size() == ef && current.first > result_queue.top().first\<close>\<close>

definition stop_search :: "int \<Rightarrow> Candidate \<Rightarrow> Candidate list \<Rightarrow> error + bool" where
  "stop_search ef current rq =
     (if length rq = size_t_of_int ef
      then (case top_max rq of Inl e \<Rightarrow> Inl e | Inr t \<Rightarrow> Inr (fst current > fst t))
      else Inr False)"

text \<open>\<^verbatim>\<open>result_queue.size() < ef || dist_to_neighbor < result_queue.top().first\<close>\<close>

definition admits :: "int \<Rightarrow> real \<Rightarrow> Candidate list \<Rightarrow> error + bool" where
  "admits ef d rq =
     (if length rq < size_t_of_int ef then Inr True
      else (case top_max rq of Inl e \<Rightarrow> Inl e | Inr t \<Rightarrow> Inr (d < fst t)))"

text \<open>\<^verbatim>\<open>while (result_queue.size() > ef) result_queue.pop();\<close> drops the largest pairs.\<close>

definition trim :: "int \<Rightarrow> Candidate list \<Rightarrow> Candidate list" where
  "trim ef rq = take (size_t_of_int ef) rq"

text \<open>\<^verbatim>\<open>!filter || filter(vector_storage.get_metadata(id))\<close>\<close>

definition passes_filter :: "HNSW \<Rightarrow> FilterFunc \<Rightarrow> int \<Rightarrow> error + bool" where
  "passes_filter h flt i =
     (case flt of
        None \<Rightarrow> Inr True
      | Some f \<Rightarrow>
          (case get_metadata (vector_storage h) (size_t_of_int i) of
             Inl e \<Rightarrow> Inl e
           | Inr m \<Rightarrow> Inr (f m)))"

text \<open>\<^verbatim>\<open>nodes[id].neighbors[layer]\<close>\<close>

definition neighbors_at :: "Node list \<Rightarrow> int \<Rightarrow> int \<Rightarrow> error + int list" where
  "neighbors_at ns i layer =
     (case vec_at ns (size_t_of_int i) of
        Inl e \<Rightarrow> Inl e
      | Inr n \<Rightarrow> vec_at (neighbors n) (size_t_of_int layer))"

text \<open>The \<^verbatim>\<open>for\<close> loop over the neighbours of the current candidate.\<close>

fun visit_neighbors ::
  "HNSW \<Rightarrow> ScalarQuantizer option \<Rightarrow> real list \<Rightarrow> int \<Rightarrow> FilterFunc \<Rightarrow> int list \<Rightarrow> search_state
     \<Rightarrow> error + search_state" where
  "visit_neighbors h sq query ef flt [] s = Inr s"
| "visit_neighbors h sq query ef flt (neighbor_id # rest) s =
     (if neighbor_id \<in> visited_nodes s then visit_neighbors h sq query ef flt rest s
      else
        let s1 = s\<lparr>visited_nodes := insert neighbor_id (visited_nodes s)\<rparr> in
        if uint32_of_int neighbor_id \<in> deleted_nodes h
        then visit_neighbors h sq query ef flt rest s1
        else
          (case calculate_distance h sq query neighbor_id of
             Inl e \<Rightarrow> Inl e
           | Inr dist_to_neighbor \<Rightarrow>
               (case admits ef dist_to_neighbor (result_queue s1) of
                  Inl e \<Rightarrow> Inl e
                | Inr False \<Rightarrow> visit_neighbors h sq query ef flt rest s1
                | Inr True \<Rightarrow>
                    (case passes_filter h flt neighbor_id of
                       Inl e \<Rightarrow> Inl e
                     | Inr ok \<Rightarrow>
                         visit_neighbors h sq query ef flt rest
                           (s1\<lparr>candidate_queue :=
                                 insort (dist_to_neighbor, neighbor_id) (candidate_queue s1),
                               result_queue :=
                                 trim ef (if ok
                                          then insort (dist_to_neighbor, neighbor_id) (result_queue s1)
                                          else result_queue s1)\<rparr>)))))"

text \<open>Every id stored in an adjacency list of the graph.\<close>

definition graph_ids :: "Node list \<Rightarrow> int set" where
  "graph_ids ns = (\<Union>n \<in> set ns. \<Union>l \<in> set (neighbors n). set l)"

text \<open>
  The \<^verbatim>\<open>while (!candidate_queue.empty())\<close> loop. It terminates because a node enters the
  candidate queue only when it is first visited.
\<close>

function search_loop ::
  "HNSW \<Rightarrow> ScalarQuantizer option \<Rightarrow> real list \<Rightarrow> int \<Rightarrow> int \<Rightarrow> FilterFunc \<Rightarrow> search_state
     \<Rightarrow> error + search_state" where
  "search_loop h sq query ef layer_level flt s =
     (case candidate_queue s of
        [] \<Rightarrow> Inr s
      | current # popped \<Rightarrow>
          (case stop_search ef current (result_queue s) of
             Inl e \<Rightarrow> Inl e
           | Inr True \<Rightarrow> Inr (s\<lparr>candidate_queue := popped\<rparr>)
           | Inr False \<Rightarrow>
               (case neighbors_at (nodes h) (snd current) layer_level of
                  Inl e \<Rightarrow> Inl e
                | Inr nbrs \<Rightarrow>
                    (case visit_neighbors h sq query ef flt nbrs (s\<lparr>candidate_queue := popped\<rparr>) of
                       Inl e \<Rightarrow> Inl e
                     | Inr s' \<Rightarrow> search_loop h sq query ef layer_level flt s'))))"
  by pat_completeness auto
termination
proof (relation "measure (\<lambda>(h, sq, query, ef, layer_level, flt, s).
          card (graph_ids (nodes h) - visited_nodes s) + length (candidate_queue s))")
  show "wf (measure (\<lambda>(h, sq, query, ef, layer_level, flt, s).
          card (graph_ids (nodes h) - visited_nodes s) + length (candidate_queue s)))"
    by simp
next
  fix h :: HNSW and sq :: "ScalarQuantizer option" and query :: "real list"
    and ef layer_level :: int and flt :: FilterFunc and s s' :: search_state
    and current :: Candidate and popped :: "Candidate list" and x2 :: bool and nbrs :: "int list"
  assume cq: "candidate_queue s = current # popped"
    and nb: "neighbors_at (nodes h) (snd current) layer_level = Inr nbrs"
    and vn: "visit_neighbors h sq query ef flt nbrs (s\<lparr>candidate_queue := popped\<rparr>) = Inr s'"
  have fin: "finite (graph_ids (nodes h))"
    by (simp add: graph_ids_def)
  have sub: "set nbrs \<subseteq> graph_ids (nodes h)"
  proof -
    from nb have "\<exists>n \<in> set (nodes h). nbrs \<in> set (neighbors n)"
      by (auto simp: neighbors_at_def vec_at_def split: if_splits sum.splits intro!: nth_mem)
    then show ?thesis by (auto simp: graph_ids_def)
  qed
  have step: "\<And>t t'. visit_neighbors h sq query ef flt ns t = Inr t' \<Longrightarrow> set ns \<subseteq> graph_ids (nodes h) \<Longrightarrow>
      card (graph_ids (nodes h) - visited_nodes t') + length (candidate_queue t')
        \<le> card (graph_ids (nodes h) - visited_nodes t) + length (candidate_queue t)" for ns
  proof (induction ns)
    case Nil
    then show ?case by simp
  next
    case (Cons n ns)
    show ?case
    proof (cases "n \<in> visited_nodes t")
      case True
      with Cons show ?thesis by simp
    next
      case False
      let ?U = "graph_ids (nodes h)"
      let ?t1 = "t\<lparr>visited_nodes := insert n (visited_nodes t)\<rparr>"
      have nU: "n \<in> ?U" using Cons.prems(2) by simp
      have "Suc (card ((?U - visited_nodes t) - {n})) = card (?U - visited_nodes t)"
        by (rule card_Suc_Diff1) (use fin nU False in simp_all)
      moreover have "?U - insert n (visited_nodes t) = (?U - visited_nodes t) - {n}" by auto
      ultimately have c: "Suc (card (?U - insert n (visited_nodes t))) = card (?U - visited_nodes t)"
        by simp
      obtain u where u: "visit_neighbors h sq query ef flt ns u = Inr t'"
        and vu: "visited_nodes u = insert n (visited_nodes t)"
        and lu: "length (candidate_queue u) \<le> Suc (length (candidate_queue t))"
        using Cons.prems(1) False
        by (auto simp: Let_def split: if_splits sum.splits bool.splits)
      have "card (?U - visited_nodes t') + length (candidate_queue t')
            \<le> card (?U - visited_nodes u) + length (candidate_queue u)"
        using Cons.IH [OF u] Cons.prems(2) by simp
      then show ?thesis using vu lu c by simp
    qed
  qed
  from step [OF vn sub] cq
  show "((h, sq, query, ef, layer_level, flt, s'), (h, sq, query, ef, layer_level, flt, s))
      \<in> measure (\<lambda>(h, sq, query, ef, layer_level, flt, s).
          card (graph_ids (nodes h) - visited_nodes s) + length (candidate_queue s))"
    by simp
qed

declare search_loop.simps [simp del]

definition search_layer ::
  "HNSW \<Rightarrow> ScalarQuantizer option \<Rightarrow> real list \<Rightarrow> int \<Rightarrow> int \<Rightarrow> int \<Rightarrow> FilterFunc \<Rightarrow> error + int list" where
  "search_layer h sq query ep ef layer_level flt =
     (case calculate_distance h sq query ep of
        Inl e \<Rightarrow> Inl e
      | Inr dist_to_entry \<Rightarrow>
          (case (if uint32_of_int ep \<notin> deleted_nodes h
                 then (case passes_filter h flt ep of
                         Inl e \<Rightarrow> Inl e
                       | Inr ok \<Rightarrow>
                           Inr \<lparr>candidate_queue = [(dist_to_entry, ep)],
                                result_queue = (if ok then [(dist_to_entry, ep)] else []),
                                visited_nodes = {ep}\<rparr>)
                 else Inr \<lparr>candidate_queue = [], result_queue = [], visited_nodes = {ep}\<rparr>) of
             Inl e \<Rightarrow> Inl e
           | Inr s0 \<Rightarrow>
               (case search_loop h sq query ef layer_level flt s0 of
                  Inl e \<Rightarrow> Inl e
                | Inr s \<Rightarrow> Inr (map snd (result_queue s)))))"

section \<open>hnsw.h: insertion\<close>

text \<open>\<^verbatim>\<open>nodes[i].neighbors[layer]\<close> assigned \<open>f\<close> of its old value.\<close>

definition modify_neighbors :: "HNSW \<Rightarrow> nat \<Rightarrow> nat \<Rightarrow> (int list \<Rightarrow> int list) \<Rightarrow> error + HNSW" where
  "modify_neighbors h i layer f =
     (case vec_at (nodes h) i of
        Inl e \<Rightarrow> Inl e
      | Inr n \<Rightarrow>
          (case vec_at (neighbors n) layer of
             Inl e \<Rightarrow> Inl e
           | Inr l \<Rightarrow> Inr (h\<lparr>nodes := (nodes h)[i := n\<lparr>neighbors := (neighbors n)[layer := f l]\<rparr>]\<rparr>)))"

text \<open>
  The scan of the pruning step: \<open>i\<close> is the loop index, \<open>max_dist\<close> and \<open>idx\<close> are
  \<^verbatim>\<open>max_dist\<close> and \<^verbatim>\<open>furthest_neighbor_idx\<close>, which start at \<open>-1\<close>.
\<close>

fun furthest_scan ::
  "HNSW \<Rightarrow> ScalarQuantizer option \<Rightarrow> real list \<Rightarrow> int list \<Rightarrow> nat \<Rightarrow> real \<Rightarrow> int \<Rightarrow> error + int" where
  "furthest_scan h sq v [] i max_dist idx = Inr idx"
| "furthest_scan h sq v (c # cs) i max_dist idx =
     (case calculate_distance h sq v c of
        Inl e \<Rightarrow> Inl e
      | Inr d \<Rightarrow>
          if d > max_dist then furthest_scan h sq v cs (Suc i) d (int i)
          else furthest_scan h sq v cs (Suc i) max_dist idx)"

text \<open>\<^verbatim>\<open>v.erase(v.begin() + idx)\<close>\<close>

definition erase_at :: "int \<Rightarrow> 'a list \<Rightarrow> 'a list" where
  "erase_at idx l = take (nat idx) l @ drop (Suc (nat idx)) l"

text \<open>The body of the loop over \<^verbatim>\<open>new_node_neighbors\<close>: two \<^verbatim>\<open>push_back\<close>s, then the
  pruning of the neighbour's list when it has more than \<^verbatim>\<open>M\<close> elements.\<close>

definition connect :: "HNSW \<Rightarrow> ScalarQuantizer option \<Rightarrow> nat \<Rightarrow> int \<Rightarrow> int \<Rightarrow> error + HNSW" where
  "connect h sq new_node_id layer neighbor_id =
     bind_err (modify_neighbors h new_node_id (size_t_of_int layer) (\<lambda>l. l @ [neighbor_id])) (\<lambda>h1.
     bind_err (modify_neighbors h1 (size_t_of_int neighbor_id) (size_t_of_int layer)
                 (\<lambda>l. l @ [int_of_uint32 new_node_id])) (\<lambda>h2.
     bind_err (neighbors_at (nodes h2) neighbor_id layer) (\<lambda>l.
       if length l > size_t_of_int (M h2) then
         bind_err (get_vector (vector_storage h2) (size_t_of_int neighbor_id)) (\<lambda>v.
         bind_err (furthest_scan h2 sq v l 0 (- 1) (- 1)) (\<lambda>furthest_neighbor_idx.
           if furthest_neighbor_idx \<noteq> - 1
           then modify_neighbors h2 (size_t_of_int neighbor_id) (size_t_of_int layer)
                  (erase_at furthest_neighbor_idx)
           else Inr h2))
       else Inr h2)))"

fun connect_all :: "HNSW \<Rightarrow> ScalarQuantizer option \<Rightarrow> nat \<Rightarrow> int \<Rightarrow> int list \<Rightarrow> error + HNSW" where
  "connect_all h sq new_node_id layer [] = Inr h"
| "connect_all h sq new_node_id layer (neighbor_id # rest) =
     (case connect h sq new_node_id layer neighbor_id of
        Inl e \<Rightarrow> Inl e
      | Inr h' \<Rightarrow> connect_all h' sq new_node_id layer rest)"

text \<open>
  The first loop of \<^verbatim>\<open>insert\<close>, over the layers \<^verbatim>\<open>current_max_layer\<close> down to
  \<^verbatim>\<open>new_node_layer + 1\<close>, given as a list. An empty result ends the loop (\<^verbatim>\<open>break\<close>).
  Next to the node reached, the function returns the layers on which the loop called
  \<^verbatim>\<open>search_layer\<close>, in the order of the calls: a record of its control flow.
\<close>

fun descend ::
  "HNSW \<Rightarrow> ScalarQuantizer option \<Rightarrow> real list \<Rightarrow> int list \<Rightarrow> int \<Rightarrow> (error + int) \<times> int list" where
  "descend h sq vec [] current_node_id = (Inr current_node_id, [])"
| "descend h sq vec (layer # layers) current_node_id =
     (case search_layer h sq vec current_node_id 1 layer None of
        Inl e \<Rightarrow> (Inl e, [layer])
      | Inr [] \<Rightarrow> (Inr current_node_id, [layer])
      | Inr (c # _) \<Rightarrow>
          (case descend h sq vec layers c of (r, searched) \<Rightarrow> (r, layer # searched)))"

text \<open>
  The second loop, over the layers \<^verbatim>\<open>min(new_node_layer, current_max_layer)\<close> down to 0.
  \<^verbatim>\<open>new_node_neighbors\<close> is the prefix of \<^verbatim>\<open>neighbors_found\<close> taken while
  \<^verbatim>\<open>new_node_neighbors.size() < M\<close>.
\<close>

fun connect_layers ::
  "ScalarQuantizer option \<Rightarrow> real list \<Rightarrow> nat \<Rightarrow> int list \<Rightarrow> int \<Rightarrow> HNSW \<Rightarrow> error + HNSW" where
  "connect_layers sq vec new_node_id [] current_node_id h = Inr h"
| "connect_layers sq vec new_node_id (layer # layers) current_node_id h =
     (case search_layer h sq vec current_node_id (efConstruction h) layer None of
        Inl e \<Rightarrow> Inl e
      | Inr [] \<Rightarrow> connect_layers sq vec new_node_id layers current_node_id h
      | Inr (first # others) \<Rightarrow>
          (case connect_all h sq new_node_id layer (take (size_t_of_int (M h)) (first # others)) of
             Inl e \<Rightarrow> Inl e
           | Inr h' \<Rightarrow> connect_layers sq vec new_node_id layers first h'))"

text \<open>\<^verbatim>\<open>for (int layer = hi; layer > lo; --layer)\<close> visits these layers, in this order.\<close>

definition layers_down :: "int \<Rightarrow> int \<Rightarrow> int list" where
  "layers_down hi lo = rev [lo + 1..hi]"

definition link_new_node ::
  "HNSW \<Rightarrow> ScalarQuantizer option \<Rightarrow> nat \<Rightarrow> int \<Rightarrow> real list \<Rightarrow> error + HNSW" where
  "link_new_node h sq new_node_id new_node_layer vec =
     (case vec_at (nodes h) (size_t_of_int (entry_point_id h)) of
        Inl e \<Rightarrow> Inl e
      | Inr ep \<Rightarrow>
          let current_max_layer = max_layer ep in
          (case fst (descend h sq vec (layers_down current_max_layer new_node_layer)
                       (entry_point_id h)) of
             Inl e \<Rightarrow> Inl e
           | Inr current_node_id \<Rightarrow>
               connect_layers sq vec new_node_id
                 (layers_down (min new_node_layer current_max_layer) (- 1)) current_node_id h))"

text \<open>
  The descent as the specification words it, for comparison with \<open>descend\<close>: an empty
  result leaves the current node unchanged and the loop goes on to the next layer.
\<close>

fun descend_continuing ::
  "HNSW \<Rightarrow> ScalarQuantizer option \<Rightarrow> real list \<Rightarrow> int list \<Rightarrow> int \<Rightarrow> (error + int) \<times> int list" where
  "descend_continuing h sq vec [] current_node_id = (Inr current_node_id, [])"
| "descend_continuing h sq vec (layer # layers) current_node_id =
     (case search_layer h sq vec current_node_id 1 layer None of
        Inl e \<Rightarrow> (Inl e, [layer])
      | Inr [] \<Rightarrow>
          (case descend_continuing h sq vec layers current_node_id of
             (r, searched) \<Rightarrow> (r, layer # searched))
      | Inr (c # _) \<Rightarrow>
          (case descend_continuing h sq vec layers c of (r, searched) \<Rightarrow> (r, layer # searched)))"

text \<open>\<^verbatim>\<open>HNSW::insert\<close>; \<open>level\<close> is the value of \<^verbatim>\<open>random_level()\<close>.\<close>

definition HNSW_insert ::
  "HNSW \<Rightarrow> ScalarQuantizer option \<Rightarrow> nat \<Rightarrow> real list \<Rightarrow> Metadata \<Rightarrow> (error + nat) \<times> HNSW" where
  "HNSW_insert h sq level vec meta =
     (let new_node_id = uint32_of_size_t (length (vectors (vector_storage h))) in
      case add_vector (vector_storage h) sq vec meta of
        (Inl e, vs) \<Rightarrow> (Inl e, h\<lparr>vector_storage := vs\<rparr>)
      | (Inr _, vs) \<Rightarrow>
          let new_node_layer = int level in
          (case Node_new new_node_id new_node_layer of
             Inl e \<Rightarrow> (Inl e, h\<lparr>vector_storage := vs\<rparr>)
           | Inr node \<Rightarrow>
               let h1 = h\<lparr>vector_storage := vs, nodes := nodes h @ [node]\<rparr> in
               if entry_point_id h1 = - 1
               then (Inr new_node_id, h1\<lparr>entry_point_id := int_of_uint32 new_node_id\<rparr>)
               else
                 (case link_new_node h1 sq new_node_id new_node_layer vec of
                    Inl e \<Rightarrow> (Inl e, h1)
                  | Inr h2 \<Rightarrow>
                      (case vec_at (nodes h2) (size_t_of_int (entry_point_id h2)) of
                         Inl e \<Rightarrow> (Inl e, h2)
                       | Inr ep \<Rightarrow>
                           (Inr new_node_id,
                            if new_node_layer > max_layer ep
                            then h2\<lparr>entry_point_id := int_of_uint32 new_node_id\<rparr>
                            else h2)))))"

section \<open>hnsw.h: query and soft delete\<close>

text \<open>The descent of \<^verbatim>\<open>k_nearest_neighbors\<close> over the layers \<^verbatim>\<open>current_max_layer\<close> down
  to 1: an empty result leaves the current node and goes on.\<close>

fun knn_descend ::
  "HNSW \<Rightarrow> ScalarQuantizer option \<Rightarrow> real list \<Rightarrow> FilterFunc \<Rightarrow> int list \<Rightarrow> int \<Rightarrow> error + int" where
  "knn_descend h sq query flt [] current_node_id = Inr current_node_id"
| "knn_descend h sq query flt (layer # layers) current_node_id =
     (case search_layer h sq query current_node_id 1 layer flt of
        Inl e \<Rightarrow> Inl e
      | Inr [] \<Rightarrow> knn_descend h sq query flt layers current_node_id
      | Inr (c # _) \<Rightarrow> knn_descend h sq query flt layers c)"

definition make_result ::
  "HNSW \<Rightarrow> ScalarQuantizer option \<Rightarrow> real list \<Rightarrow> Include set \<Rightarrow> int \<Rightarrow> error + QueryResult" where
  "make_result h sq query inc i =
     bind_err (if DISTANCE \<in> inc
               then bind_err (calculate_distance h sq query i) (\<lambda>d. Inr (Some d))
               else Inr None) (\<lambda>d.
     bind_err (if METADATA \<in> inc then get_metadata (vector_storage h) (size_t_of_int i)
               else Inr fmempty) (\<lambda>m.
     bind_err (if VECTOR \<in> inc then get_vector (vector_storage h) (size_t_of_int i)
               else Inr []) (\<lambda>v.
     Inr \<lparr>qr_id = i, qr_distance = d, qr_metadata = m, qr_vector = v\<rparr>)))"

text \<open>The loop over \<^verbatim>\<open>results_ids\<close>; \<open>final_results\<close> is the vector built so far.
  \<^verbatim>\<open>final_results.size() >= k\<close> compares a \<^verbatim>\<open>size_t\<close> with the \<^verbatim>\<open>int\<close> \<open>k\<close>.\<close>

fun collect_results ::
  "HNSW \<Rightarrow> ScalarQuantizer option \<Rightarrow> real list \<Rightarrow> int \<Rightarrow> Include set \<Rightarrow> int list \<Rightarrow> QueryResult list
     \<Rightarrow> error + QueryResult list" where
  "collect_results h sq query k inc [] final_results = Inr final_results"
| "collect_results h sq query k inc (i # ids) final_results =
     (if uint32_of_int i \<in> deleted_nodes h then collect_results h sq query k inc ids final_results
      else if length final_results \<ge> size_t_of_int k then Inr final_results
      else (case make_result h sq query inc i of
              Inl e \<Rightarrow> Inl e
            | Inr result \<Rightarrow> collect_results h sq query k inc ids (final_results @ [result])))"

definition k_nearest_neighbors ::
  "HNSW \<Rightarrow> ScalarQuantizer option \<Rightarrow> real list \<Rightarrow> int \<Rightarrow> FilterFunc \<Rightarrow> Include set
     \<Rightarrow> error + QueryResult list" where
  "k_nearest_neighbors h sq query k flt inc =
     (if entry_point_id h = - 1 then Inr []
      else
        (case vec_at (nodes h) (size_t_of_int (entry_point_id h)) of
           Inl e \<Rightarrow> Inl e
         | Inr ep \<Rightarrow>
             (case knn_descend h sq query flt (layers_down (max_layer ep) 0) (entry_point_id h) of
                Inl e \<Rightarrow> Inl e
              | Inr current_node_id \<Rightarrow>
                  (case search_layer h sq query current_node_id (max k (efSearch h)) 0 flt of
                     Inl e \<Rightarrow> Inl e
                   | Inr results_ids \<Rightarrow> collect_results h sq query k inc results_ids []))))"

text \<open>The rescan of \<^verbatim>\<open>mark_deleted\<close>: \<open>ep\<close> and \<open>ml\<close> are \<^verbatim>\<open>new_entry_point\<close> and
  \<^verbatim>\<open>max_layer\<close>, which start at \<open>-1\<close>.\<close>

fun rescan :: "nat set \<Rightarrow> Node list \<Rightarrow> int \<Rightarrow> int \<Rightarrow> int" where
  "rescan deleted [] ep ml = ep"
| "rescan deleted (node # rest) ep ml =
     (if node_id node \<notin> deleted \<and> max_layer node > ml
      then rescan deleted rest (int_of_uint32 (node_id node)) (max_layer node)
      else rescan deleted rest ep ml)"

text \<open>\<^verbatim>\<open>entry_point_id == id\<close> compares an \<^verbatim>\<open>int\<close> with a \<^verbatim>\<open>uint32_t\<close>.\<close>

definition mark_deleted :: "HNSW \<Rightarrow> nat \<Rightarrow> HNSW" where
  "mark_deleted h i =
     (let h1 = h\<lparr>deleted_nodes := insert i (deleted_nodes h)\<rparr> in
      if uint32_of_int (entry_point_id h1) = i
      then h1\<lparr>entry_point_id := rescan (deleted_nodes h1) (nodes h1) (- 1) (- 1)\<rparr>
      else h1)"

section \<open>database.h: the facade\<close>

datatype SyncMode = FULL | NORMAL | OFF

record Database =
  db_path :: string
  db_hnsw :: HNSW
  db_read_only :: bool
  db_cache_size_mb :: nat
  db_sq :: "ScalarQuantizer option"

definition Database_insert ::
  "Database \<Rightarrow> nat \<Rightarrow> real list \<Rightarrow> Metadata \<Rightarrow> (error + nat) \<times> Database" where
  "Database_insert db level vec meta =
     (if db_read_only db then (Inl ReadOnlyViolation, db)
      else (case HNSW_insert (db_hnsw db) (db_sq db) level vec meta of
              (r, h) \<Rightarrow> (r, db\<lparr>db_hnsw := h\<rparr>)))"

definition Database_delete_vector :: "Database \<Rightarrow> nat \<Rightarrow> (error + unit) \<times> Database" where
  "Database_delete_vector db i =
     (if db_read_only db then (Inl ReadOnlyViolation, db)
      else (Inr (), db\<lparr>db_hnsw := mark_deleted (db_hnsw db) i\<rparr>))"

definition Database_update_vector ::
  "Database \<Rightarrow> nat \<Rightarrow> nat \<Rightarrow> real list \<Rightarrow> Metadata \<Rightarrow> (error + nat) \<times> Database" where
  "Database_update_vector db level i new_vec new_meta =
     (if db_read_only db then (Inl ReadOnlyViolation, db)
      else (case Database_delete_vector db i of
              (Inl e, db1) \<Rightarrow> (Inl e, db1)
            | (Inr _, db1) \<Rightarrow> Database_insert db1 level new_vec new_meta))"

definition Database_query ::
  "Database \<Rightarrow> real list \<Rightarrow> int \<Rightarrow> FilterFunc \<Rightarrow> Include set \<Rightarrow> error + QueryResult list" where
  "Database_query db query k flt inc = k_nearest_neighbors (db_hnsw db) (db_sq db) query k flt inc"

definition Database_train_quantizer :: "Database \<Rightarrow> (error + unit) \<times> Database" where
  "Database_train_quantizer db =
     (case db_sq db of
        None \<Rightarrow> (Inr (), db)
      | Some q \<Rightarrow>
          (case train q (vectors (vector_storage (db_hnsw db))) of
             Inl e \<Rightarrow> (Inl e, db)
           | Inr q' \<Rightarrow>
               let db1 = db\<lparr>db_sq := Some q'\<rparr> in
               (case encode_all_vectors (vector_storage (db_hnsw db1)) (Some q') of
                  Inl e \<Rightarrow> (Inl e, db1)
                | Inr vs \<Rightarrow> (Inr (), db1\<lparr>db_hnsw := (db_hnsw db1)\<lparr>vector_storage := vs\<rparr>\<rparr>))))"

text \<open>
  The loop of \<^verbatim>\<open>rebuild_index\<close> over the indices of the old storage; \<open>levels\<close> is the
  sequence of values \<^verbatim>\<open>random_level()\<close> returns and \<open>n\<close> counts the draws made so far.
  \<^verbatim>\<open>deleted_nodes.find(i)\<close> converts the \<^verbatim>\<open>size_t\<close> index to \<^verbatim>\<open>uint32_t\<close>.
\<close>

fun reinsert ::
  "HNSW \<Rightarrow> ScalarQuantizer option \<Rightarrow> (nat \<Rightarrow> nat) \<Rightarrow> nat \<Rightarrow> nat list \<Rightarrow> HNSW \<Rightarrow> error + HNSW" where
  "reinsert old sq levels n [] new_hnsw = Inr new_hnsw"
| "reinsert old sq levels n (i # rest) new_hnsw =
     (if uint32_of_size_t i \<in> deleted_nodes old then reinsert old sq levels n rest new_hnsw
      else
        (case get_vector (vector_storage old) i of
           Inl e \<Rightarrow> Inl e
         | Inr vec \<Rightarrow>
             (case get_metadata (vector_storage old) i of
                Inl e \<Rightarrow> Inl e
              | Inr meta \<Rightarrow>
                  (case HNSW_insert new_hnsw sq (levels n) vec meta of
                     (Inl e, _) \<Rightarrow> Inl e
                   | (Inr _, h') \<Rightarrow> reinsert old sq levels (Suc n) rest h'))))"

definition Database_rebuild_index :: "Database \<Rightarrow> (nat \<Rightarrow> nat) \<Rightarrow> (error + unit) \<times> Database" where
  "Database_rebuild_index db levels =
     (if db_read_only db then (Inl ReadOnlyViolation, db)
      else
        (case Database_train_quantizer db of
           (Inl e, db1) \<Rightarrow> (Inl e, db1)
         | (Inr _, db1) \<Rightarrow>
             let old = db_hnsw db1;
                 new_hnsw = HNSW_new (vector_dimension (vector_storage old)) (M old)
                              (efConstruction old) (efSearch old) (distance_metric old)
             in (case reinsert old (db_sq db1) levels 0
                        [0..<length (vectors (vector_storage old))] new_hnsw of
                   Inl e \<Rightarrow> (Inl e, db1)
                 | Inr h \<Rightarrow> (Inr (), db1\<lparr>db_hnsw := h\<rparr>))))"

section \<open>database.h: persistence\<close>

text \<open>
  A file is the sequence of the scalar fields written to it. The bytes of each field
  (host byte order, \<^verbatim>\<open>sizeof\<close>) are not modelled: \<^verbatim>\<open>save\<close> and \<^verbatim>\<open>load\<close> use the same
  type for each field. A file system maps a path to the file stored there, if any.
  Opening a file for writing always succeeds.
\<close>

datatype field = FBool bool | FSize nat | FInt int | FU32 nat | FFloat real | FByte char

type_synonym dbfile = "field list"

type_synonym filesystem = "string \<Rightarrow> dbfile option"

text \<open>\<^verbatim>\<open>ofs.write(v.data(), n * sizeof(float))\<close> reads \<open>n\<close> floats from \<open>v\<close>.\<close>

definition write_floats :: "nat \<Rightarrow> real list \<Rightarrow> error + dbfile" where
  "write_floats n v = (if length v < n then Inl OutOfBounds else Inr (map FFloat (take n v)))"

definition sq_save :: "ScalarQuantizer \<Rightarrow> error + dbfile" where
  "sq_save q =
     bind_err (write_floats (original_dim q) (mins q)) (\<lambda>a.
     bind_err (write_floats (original_dim q) (maxs q)) (\<lambda>b.
     Inr (FSize (original_dim q) # a @ b)))"

fun metric_to_int :: "DistanceMetric \<Rightarrow> int" where
  "metric_to_int L2 = 0"
| "metric_to_int COSINE = 1"
| "metric_to_int IP = 2"
| "metric_to_int (InvalidMetric n) = n"

definition metric_of_int :: "int \<Rightarrow> DistanceMetric" where
  "metric_of_int n =
     (if n = 0 then L2 else if n = 1 then COSINE else if n = 2 then IP else InvalidMetric n)"

definition save_layer :: "Node \<Rightarrow> int \<Rightarrow> error + dbfile" where
  "save_layer node layer =
     bind_err (vec_at (neighbors node) (size_t_of_int layer)) (\<lambda>l.
     Inr (FSize (length l) # map FInt l))"

definition save_node :: "Node \<Rightarrow> error + dbfile" where
  "save_node node =
     bind_err (map_err (save_layer node) [0..max_layer node]) (\<lambda>ls.
     Inr (FU32 (node_id node) # FInt (max_layer node) # concat ls))"

definition save_string :: "string \<Rightarrow> dbfile" where
  "save_string str = FSize (length str) # map FByte str"

text \<open>A \<^verbatim>\<open>std::map\<close> is iterated in the order of its keys.\<close>

definition save_meta :: "Metadata \<Rightarrow> dbfile" where
  "save_meta meta =
     FSize (length (sorted_list_of_fmap meta)) #
     concat (map (\<lambda>(k, v). save_string k @ save_string v) (sorted_list_of_fmap meta))"

definition save_vector :: "VectorStorage \<Rightarrow> nat \<Rightarrow> error + dbfile" where
  "save_vector vs i =
     bind_err (get_vector vs i) (\<lambda>vec.
     bind_err (get_metadata vs i) (\<lambda>meta.
     bind_err (write_floats (vector_dimension vs) vec) (\<lambda>a.
     Inr (a @ save_meta meta))))"

text \<open>The iteration order of the \<^verbatim>\<open>unordered_set\<close> of deleted ids is unspecified;
  the model writes them in ascending order.\<close>

definition save_contents :: "Database \<Rightarrow> error + dbfile" where
  "save_contents db =
     (let h = db_hnsw db; vs = vector_storage h in
      bind_err (case db_sq db of None \<Rightarrow> Inr [] | Some q \<Rightarrow> sq_save q) (\<lambda>quant.
      bind_err (map_err save_node (nodes h)) (\<lambda>ns.
      bind_err (map_err (save_vector vs) [0..<length (vectors vs)]) (\<lambda>vecs.
      Inr (FBool (db_sq db \<noteq> None) # quant
           @ [FInt (M h), FInt (efConstruction h), FInt (efSearch h),
              FInt (metric_to_int (distance_metric h))]
           @ FSize (length (nodes h)) # concat ns
           @ FSize (length (vectors vs)) # FSize (vector_dimension vs) # concat vecs
           @ FSize (card (deleted_nodes h))
             # map FU32 (sorted_list_of_set (deleted_nodes h)))))))"

definition Database_save :: "Database \<Rightarrow> SyncMode \<Rightarrow> filesystem \<Rightarrow> (error + filesystem) \<times> Database" where
  "Database_save db sync_mode fs =
     (if db_read_only db then (Inl ReadOnlyViolation, db)
      else (case save_contents db of
              Inl e \<Rightarrow> (Inl e, db)
            | Inr contents \<Rightarrow> (Inr (fs(db_path db \<mapsto> contents)), db)))"

text \<open>Readers: each takes the next field, which has to be of the type read.\<close>

fun read_bool :: "dbfile \<Rightarrow> error + bool \<times> dbfile" where
  "read_bool (FBool b # r) = Inr (b, r)"
| "read_bool _ = Inl ShortRead"

fun read_size :: "dbfile \<Rightarrow> error + nat \<times> dbfile" where
  "read_size (FSize n # r) = Inr (n, r)"
| "read_size _ = Inl ShortRead"

fun read_int :: "dbfile \<Rightarrow> error + int \<times> dbfile" where
  "read_int (FInt n # r) = Inr (n, r)"
| "read_int _ = Inl ShortRead"

fun read_u32 :: "dbfile \<Rightarrow> error + nat \<times> dbfile" where
  "read_u32 (FU32 n # r) = Inr (n, r)"
| "read_u32 _ = Inl ShortRead"

fun read_float :: "dbfile \<Rightarrow> error + real \<times> dbfile" where
  "read_float (FFloat x # r) = Inr (x, r)"
| "read_float _ = Inl ShortRead"

fun read_byte :: "dbfile \<Rightarrow> error + char \<times> dbfile" where
  "read_byte (FByte c # r) = Inr (c, r)"
| "read_byte _ = Inl ShortRead"

fun read_n :: "(dbfile \<Rightarrow> error + 'a \<times> dbfile) \<Rightarrow> nat \<Rightarrow> dbfile \<Rightarrow> error + 'a list \<times> dbfile" where
  "read_n rd 0 f = Inr ([], f)"
| "read_n rd (Suc n) f =
     (case rd f of
        Inl e \<Rightarrow> Inl e
      | Inr (x, f1) \<Rightarrow>
          (case read_n rd n f1 of Inl e \<Rightarrow> Inl e | Inr (xs, f2) \<Rightarrow> Inr (x # xs, f2)))"

definition sq_load :: "dbfile \<Rightarrow> error + ScalarQuantizer \<times> dbfile" where
  "sq_load f =
     (case read_size f of
        Inl e \<Rightarrow> Inl e
      | Inr (d, f1) \<Rightarrow>
          (case read_n read_float d f1 of
             Inl e \<Rightarrow> Inl e
           | Inr (mn, f2) \<Rightarrow>
               (case read_n read_float d f2 of
                  Inl e \<Rightarrow> Inl e
                | Inr (mx, f3) \<Rightarrow> Inr (\<lparr>original_dim = d, mins = mn, maxs = mx\<rparr>, f3))))"

definition read_layer :: "dbfile \<Rightarrow> error + int list \<times> dbfile" where
  "read_layer f =
     (case read_size f of Inl e \<Rightarrow> Inl e | Inr (num_neighbors, f1) \<Rightarrow> read_n read_int num_neighbors f1)"

definition read_node :: "dbfile \<Rightarrow> error + Node \<times> dbfile" where
  "read_node f =
     (case read_u32 f of
        Inl e \<Rightarrow> Inl e
      | Inr (i, f1) \<Rightarrow>
          (case read_int f1 of
             Inl e \<Rightarrow> Inl e
           | Inr (l, f2) \<Rightarrow>
               (case Node_new i l of
                  Inl e \<Rightarrow> Inl e
                | Inr node \<Rightarrow>
                    (case read_n read_layer (length [0..l]) f2 of
                       Inl e \<Rightarrow> Inl e
                     | Inr (ls, f3) \<Rightarrow> Inr (node\<lparr>neighbors := ls\<rparr>, f3)))))"

definition read_string :: "dbfile \<Rightarrow> error + string \<times> dbfile" where
  "read_string f =
     (case read_size f of Inl e \<Rightarrow> Inl e | Inr (n, f1) \<Rightarrow> read_n read_byte n f1)"

definition read_pair :: "dbfile \<Rightarrow> error + (string \<times> string) \<times> dbfile" where
  "read_pair f =
     (case read_string f of
        Inl e \<Rightarrow> Inl e
      | Inr (key, f1) \<Rightarrow>
          (case read_string f1 of Inl e \<Rightarrow> Inl e | Inr (val, f2) \<Rightarrow> Inr ((key, val), f2)))"

text \<open>\<^verbatim>\<open>meta[key] = value\<close> for each pair read, in the order read.\<close>

definition read_meta :: "dbfile \<Rightarrow> error + Metadata \<times> dbfile" where
  "read_meta f =
     (case read_size f of
        Inl e \<Rightarrow> Inl e
      | Inr (meta_size, f1) \<Rightarrow>
          (case read_n read_pair meta_size f1 of
             Inl e \<Rightarrow> Inl e
           | Inr (kvs, f2) \<Rightarrow> Inr (fold (\<lambda>(k, v) m. fmupd k v m) kvs fmempty, f2)))"

text \<open>The loop that reads \<open>n\<close> vectors with their metadata and adds each to the storage.\<close>

fun read_vectors ::
  "ScalarQuantizer option \<Rightarrow> nat \<Rightarrow> VectorStorage \<Rightarrow> dbfile \<Rightarrow> error + VectorStorage \<times> dbfile" where
  "read_vectors sq 0 vs f = Inr (vs, f)"
| "read_vectors sq (Suc n) vs f =
     (case read_n read_float (vector_dimension vs) f of
        Inl e \<Rightarrow> Inl e
      | Inr (vec, f1) \<Rightarrow>
          (case read_meta f1 of
             Inl e \<Rightarrow> Inl e
           | Inr (meta, f2) \<Rightarrow>
               (case add_vector vs sq vec meta of
                  (Inl e, _) \<Rightarrow> Inl e
                | (Inr _, vs') \<Rightarrow> read_vectors sq n vs' f2)))"

text \<open>Everything \<^verbatim>\<open>load\<close> reads after the quantizer, and the index built from it;
  \<open>sq\<close> is the quantizer of the database at that point.\<close>

definition load_index :: "ScalarQuantizer option \<Rightarrow> bool \<Rightarrow> dbfile \<Rightarrow> error + HNSW" where
  "load_index sq sq_enabled f =
     (case read_n read_int 4 f of
        Inl e \<Rightarrow> Inl e
      | Inr (params, f1) \<Rightarrow>
     (case read_size f1 of
        Inl e \<Rightarrow> Inl e
      | Inr (num_nodes, f2) \<Rightarrow>
     (case read_n read_node num_nodes f2 of
        Inl e \<Rightarrow> Inl e
      | Inr (ns, f3) \<Rightarrow>
     (case read_size f3 of
        Inl e \<Rightarrow> Inl e
      | Inr (num_vectors, f4) \<Rightarrow>
     (case read_size f4 of
        Inl e \<Rightarrow> Inl e
      | Inr (vector_dim, f5) \<Rightarrow>
     (case read_vectors sq num_vectors (VectorStorage_new vector_dim) f5 of
        Inl e \<Rightarrow> Inl e
      | Inr (vs, f6) \<Rightarrow>
     (case (if sq_enabled then encode_all_vectors vs sq else Inr vs) of
        Inl e \<Rightarrow> Inl e
      | Inr vs' \<Rightarrow>
     (case read_size f6 of
        Inl e \<Rightarrow> Inl e
      | Inr (num_deleted, f7) \<Rightarrow>
     (case read_n read_u32 num_deleted f7 of
        Inl e \<Rightarrow> Inl e
      | Inr (deleted, f8) \<Rightarrow>
          Inr (HNSW_loaded (params ! 0) (params ! 1) (params ! 2) (metric_of_int (params ! 3))
                 ns vs' (set deleted)))))))))))"

definition Database_load :: "Database \<Rightarrow> filesystem \<Rightarrow> (error + unit) \<times> Database" where
  "Database_load db fs =
     (case fs (db_path db) of
        None \<Rightarrow> (Inr (), db)
      | Some f \<Rightarrow>
          (case read_bool f of
             Inl e \<Rightarrow> (Inl e, db)
           | Inr (sq_enabled, f1) \<Rightarrow>
               (case (if sq_enabled
                      then (case sq_load f1 of Inl e \<Rightarrow> Inl e | Inr (q, f2) \<Rightarrow> Inr (Some q, f2))
                      else Inr (db_sq db, f1)) of
                  Inl e \<Rightarrow> (Inl e, db)
                | Inr (sq, f2) \<Rightarrow>
                    (case load_index sq sq_enabled f2 of
                       Inl e \<Rightarrow> (Inl e, db\<lparr>db_sq := sq\<rparr>)
                     | Inr h \<Rightarrow> (Inr (), db\<lparr>db_sq := sq, db_hnsw := h\<rparr>)))))"

text \<open>The constructor; with \<^verbatim>\<open>read_only\<close> it loads from \<^verbatim>\<open>db_path\<close> at once.\<close>

definition Database_new ::
  "filesystem \<Rightarrow> string \<Rightarrow> nat \<Rightarrow> int \<Rightarrow> int \<Rightarrow> int \<Rightarrow> DistanceMetric \<Rightarrow> bool \<Rightarrow> nat \<Rightarrow> bool
     \<Rightarrow> error + Database" where
  "Database_new fs path d m efc efs metric read_only cache_size_mb sq_enabled =
     (let db0 = \<lparr>db_path = path, db_hnsw = HNSW_new d m efc efs metric, db_read_only = read_only,
                 db_cache_size_mb = cache_size_mb, db_sq = None\<rparr>;
          db1 = (if sq_enabled
                 then db0\<lparr>db_sq := Some (ScalarQuantizer_new d), db_hnsw := set_quantizer (db_hnsw db0)\<rparr>
                 else db0)
      in if read_only
         then (case Database_load db1 fs of (Inl e, _) \<Rightarrow> Inl e | (Inr _, db2) \<Rightarrow> Inr db2)
         else Inr db1)"

section \<open>Auxiliary definitions\<close>

text \<open>The errors a search can end in: the read-only violation is not among them.\<close>

definition search_error :: "error \<Rightarrow> bool" where
  "search_error e \<longleftrightarrow>
     e = OutOfBounds \<or> e = EmptyTop \<or> e = UnknownMetric \<or> e = QuantizerNotTrained
       \<or> e = QuantizerNotEnabled"

text \<open>A node as its constructor leaves it: one adjacency list per layer.\<close>

definition wf_node :: "Node \<Rightarrow> bool" where
  "wf_node n \<longleftrightarrow>
     - 1 \<le> max_layer n \<and> max_layer n < 2 ^ 31 \<and> length (neighbors n) = nat (max_layer n + 1)"

text \<open>The fields \<^verbatim>\<open>save\<close> writes for an adjacency list, a key/value pair, a vector with its
  metadata, a node, an index and a quantizer.\<close>

definition layer_fields :: "int list \<Rightarrow> dbfile" where
  "layer_fields l = FSize (length l) # map FInt l"

definition pair_fields :: "string \<times> string \<Rightarrow> dbfile" where
  "pair_fields kv = save_string (fst kv) @ save_string (snd kv)"

definition vector_fields :: "real list \<times> Metadata \<Rightarrow> dbfile" where
  "vector_fields vm = map FFloat (fst vm) @ save_meta (snd vm)"

text \<open>What the persistence code relies on: every vector has the dimension of the storage,
  every vector has its metadata, every node has one adjacency list per layer, the metric
  is one of the three enumerators, and the quantizer, if there is one, has bounds of its
  dimension (it is trained, or of dimension 0).\<close>

definition storable :: "Database \<Rightarrow> bool" where
  "storable db \<longleftrightarrow>
     (let h = db_hnsw db; vs = vector_storage h in
        list_all (\<lambda>v. length v = vector_dimension vs) (vectors vs)
        \<and> length (metadata vs) = length (vectors vs)
        \<and> list_all wf_node (nodes h)
        \<and> distance_metric h = metric_of_int (metric_to_int (distance_metric h))
        \<and> finite (deleted_nodes h)
        \<and> (case db_sq db of
              None \<Rightarrow> True
            | Some q \<Rightarrow>
                length (mins q) = original_dim q \<and> length (maxs q) = original_dim q
                \<and> original_dim q \<le> vector_dimension vs))"

text \<open>When \<open>encode\<close> cannot fail on a vector of length \<open>d\<close>.\<close>

definition encodes :: "ScalarQuantizer option \<Rightarrow> nat \<Rightarrow> bool" where
  "encodes sq d \<longleftrightarrow>
     (case sq of
        None \<Rightarrow> True
      | Some q \<Rightarrow>
          length (mins q) = original_dim q \<and> length (maxs q) = original_dim q
          \<and> original_dim q \<le> d)"

definition node_fields :: "Node \<Rightarrow> dbfile" where
  "node_fields n = FU32 (node_id n) # FInt (max_layer n) # concat (map layer_fields (neighbors n))"

definition index_fields :: "HNSW \<Rightarrow> dbfile" where
  "index_fields h =
     [FInt (M h), FInt (efConstruction h), FInt (efSearch h), FInt (metric_to_int (distance_metric h))]
     @ FSize (length (nodes h)) # concat (map node_fields (nodes h))
     @ FSize (length (vectors (vector_storage h))) # FSize (vector_dimension (vector_storage h))
       # concat (map vector_fields (zip (vectors (vector_storage h)) (metadata (vector_storage h))))
     @ FSize (card (deleted_nodes h)) # map FU32 (sorted_list_of_set (deleted_nodes h))"

definition quantizer_fields :: "ScalarQuantizer \<Rightarrow> dbfile" where
  "quantizer_fields q = FSize (original_dim q) # map FFloat (mins q) @ map FFloat (maxs q)"

text \<open>The \<open>max_layer\<close> values of the nodes that are not tombstoned.\<close>

definition live_layers :: "HNSW \<Rightarrow> int list" where
  "live_layers h = map max_layer (filter (\<lambda>n. node_id n \<notin> deleted_nodes h) (nodes h))"

text \<open>Invariant 5 of the data model: without a live node there is no entry point;
  otherwise the entry point is a live node whose \<open>max_layer\<close> is the maximum over the
  live nodes.\<close>

definition entry_point_ok :: "HNSW \<Rightarrow> bool" where
  "entry_point_ok h \<longleftrightarrow>
     (if live_layers h = [] then entry_point_id h = - 1
      else 0 \<le> entry_point_id h \<and> nat (entry_point_id h) < length (nodes h)
         \<and> node_id (nodes h ! nat (entry_point_id h)) \<notin> deleted_nodes h
         \<and> max_layer (nodes h ! nat (entry_point_id h)) = Max (set (live_layers h)))"

text \<open>The \<open>i\<close>-th node and the \<open>i\<close>-th vector belong to id \<open>i\<close>, ids fit an \<^verbatim>\<open>int\<close>, layers
  are not negative and only ids of existing nodes are tombstoned.\<close>

definition ids_ok :: "HNSW \<Rightarrow> bool" where
  "ids_ok h \<longleftrightarrow>
     length (nodes h) < 2 ^ 31
     \<and> length (vectors (vector_storage h)) = length (nodes h)
     \<and> list_all (\<lambda>i. node_id (nodes h ! i) = i \<and> 0 \<le> max_layer (nodes h ! i)) [0..<length (nodes h)]
     \<and> deleted_nodes h \<subseteq> {0..<length (nodes h)}"

text \<open>Everything of an index but its adjacency lists.\<close>

definition frame ::
  "HNSW \<Rightarrow> nat list \<times> int list \<times> nat set \<times> int \<times> VectorStorage \<times> int \<times> int \<times> int \<times> DistanceMetric" where
  "frame h =
     (map node_id (nodes h), map max_layer (nodes h), deleted_nodes h, entry_point_id h,
      vector_storage h, M h, efConstruction h, efSearch h, distance_metric h)"

text \<open>What the rescan returns: the initial candidate when no live node lies above \<open>ml\<close>,
  otherwise the id of a live node of the greatest \<open>max_layer\<close>.\<close>

definition rescan_kept :: "nat set \<Rightarrow> Node list \<Rightarrow> int \<Rightarrow> int \<Rightarrow> bool" where
  "rescan_kept D ns ep ml \<longleftrightarrow>
     rescan D ns ep ml = ep \<and> list_all (\<lambda>n. node_id n \<in> D \<or> max_layer n \<le> ml) ns"

definition rescan_found :: "nat set \<Rightarrow> Node list \<Rightarrow> int \<Rightarrow> int \<Rightarrow> Node \<Rightarrow> bool" where
  "rescan_found D ns ep ml m \<longleftrightarrow>
     m \<in> set ns \<and> node_id m \<notin> D \<and> rescan D ns ep ml = int_of_uint32 (node_id m)
     \<and> ml < max_layer m \<and> list_all (\<lambda>n. node_id n \<in> D \<or> max_layer n \<le> max_layer m) ns"

subsection \<open>What a query relies on\<close>

text \<open>Node \<open>i\<close> exists and has an adjacency list for layer \<open>l\<close>.\<close>

fun valid_metric :: "DistanceMetric \<Rightarrow> bool" where
  "valid_metric (InvalidMetric n) = False"
| "valid_metric m = True"

definition layer_ok :: "HNSW \<Rightarrow> int \<Rightarrow> int \<Rightarrow> bool" where
  "layer_ok h l i \<longleftrightarrow>
     0 \<le> i \<and> nat i < length (nodes h) \<and> 0 \<le> l \<and> nat l < length (neighbors (nodes h ! nat i))"

text \<open>When the operands of a distance are in range for every node of the index.\<close>

definition distances_defined :: "HNSW \<Rightarrow> ScalarQuantizer option \<Rightarrow> real list \<Rightarrow> bool" where
  "distances_defined h sq query \<longleftrightarrow>
     (let vs = vector_storage h in
        length (vectors vs) = length (nodes h)
        \<and> list_all (\<lambda>v. length query \<le> length v) (vectors vs)
        \<and> valid_metric (distance_metric h)
        \<and> (case sq of
              None \<Rightarrow> True
            | Some q \<Rightarrow>
                is_trained q \<longrightarrow>
                  maxs q \<noteq> [] \<and> original_dim q \<le> length (mins q)
                  \<and> original_dim q \<le> length (maxs q) \<and> original_dim q \<le> length query
                  \<and> length (encoded_vectors vs) = length (nodes h)
                  \<and> list_all (\<lambda>e. original_dim q \<le> length e) (encoded_vectors vs)))"

text \<open>
  What a query relies on: fewer than \<open>2^31\<close> nodes, a vector and a metadata record for each,
  distances that are defined, adjacency lists that name existing nodes which have the
  layer of the list, and an entry point that is absent or an existing node with one list
  per layer.
\<close>

definition queues_ok :: "HNSW \<Rightarrow> int \<Rightarrow> search_state \<Rightarrow> bool" where
  "queues_ok h l s \<longleftrightarrow>
     list_all (\<lambda>c. layer_ok h l (snd c)) (candidate_queue s)
     \<and> list_all (\<lambda>c. layer_ok h l (snd c)) (result_queue s)"

definition searchable :: "HNSW \<Rightarrow> ScalarQuantizer option \<Rightarrow> real list \<Rightarrow> bool" where
  "searchable h sq query \<longleftrightarrow>
     length (nodes h) < 2 ^ 31
     \<and> length (metadata (vector_storage h)) = length (nodes h)
     \<and> distances_defined h sq query
     \<and> list_all (\<lambda>node.
          length (neighbors node) < 2 ^ 31
          \<and> list_all (\<lambda>l. list_all (layer_ok h (int l)) (neighbors node ! l))
               [0..<length (neighbors node)]) (nodes h)
     \<and> 0 < efSearch h \<and> efSearch h < 2 ^ 31
     \<and> (entry_point_id h = - 1
        \<or> layer_ok h 0 (entry_point_id h)
          \<and> layer_ok h (max_layer (nodes h ! nat (entry_point_id h))) (entry_point_id h))"

section \<open>Example states\<close>

definition no_files :: filesystem where
  "no_files = (\<lambda>path. None)"

text \<open>One vector, inserted into an empty index with the default parameters.\<close>

definition single_node_index :: HNSW where
  "single_node_index = snd (HNSW_insert (HNSW_new 1 16 200 50 L2) None 0 [0] fmempty)"

text \<open>The scenario of \<^verbatim>\<open>test_soft_delete\<close>: three vectors, then id 1 is deleted.\<close>

definition soft_delete_index :: HNSW where
  "soft_delete_index =
     mark_deleted
       (snd (HNSW_insert
          (snd (HNSW_insert
             (snd (HNSW_insert (HNSW_new 2 16 200 50 L2) None 0 [1, 1] fmempty))
             None 0 [2, 2] fmempty))
          None 0 [3, 3] fmempty)) 1"

definition read_only_db :: Database where
  "read_only_db =
     \<lparr>db_path = ''db'', db_hnsw = single_node_index, db_read_only = True,
      db_cache_size_mb = 0, db_sq = None\<rparr>"

text \<open>
  A database that receives \<open>(1, 1)\<close> with level 1 and \<open>(2, 2)\<close> with level 0, deletes
  id 1 and is saved; \<open>saved_file\<close> is the file written and \<open>reloaded_index\<close> the index
  a read-only database loads from it.
\<close>

definition fresh_db :: Database where
  "fresh_db =
     \<lparr>db_path = ''db'', db_hnsw = HNSW_new 2 16 200 50 L2, db_read_only = False,
      db_cache_size_mb = 0, db_sq = None\<rparr>"

definition saved_db :: Database where
  "saved_db =
     snd (Database_delete_vector
            (snd (Database_insert (snd (Database_insert fresh_db 1 [1, 1] fmempty)) 0 [2, 2] fmempty))
            1)"

definition saved_file :: dbfile where
  "saved_file =
     [FBool False, FInt 16, FInt 200, FInt 50, FInt 0,
      FSize 2,
      FU32 0, FInt 1, FSize 1, FInt 1, FSize 0,
      FU32 1, FInt 0, FSize 1, FInt 0,
      FSize 2, FSize 2,
      FFloat 1, FFloat 1, FSize 0,
      FFloat 2, FFloat 2, FSize 0,
      FSize 1, FU32 1]"

definition reloaded_index :: HNSW where
  "reloaded_index =
     \<lparr>vector_storage =
        \<lparr>vector_dimension = 2, vectors = [[1, 1], [2, 2]], metadata = [fmempty, fmempty],
         encoded_vectors = []\<rparr>,
      nodes = [\<lparr>node_id = 0, max_layer = 1, neighbors = [[1], []]\<rparr>,
               \<lparr>node_id = 1, max_layer = 0, neighbors = [[0]]\<rparr>],
      entry_point_id = 1, M = 16, efConstruction = 200, efSearch = 50, distance_metric = L2,
      deleted_nodes = {1}\<rparr>"

text \<open>
  The state in which \<^verbatim>\<open>insert\<close> runs its first loop after this history: \<open>(1, 1)\<close> is
  inserted with level 0 and \<open>(2, 2)\<close> with level 2, id 1 is deleted, the database is saved
  and loaded again (the entry point is then node 1, the last node), and the insertion of
  \<open>(3, 3)\<close> with level 0 has appended its vector and its node.
\<close>

definition descent_index :: HNSW where
  "descent_index =
     \<lparr>vector_storage =
        \<lparr>vector_dimension = 2, vectors = [[1, 1], [2, 2], [3, 3]],
         metadata = [fmempty, fmempty, fmempty], encoded_vectors = []\<rparr>,
      nodes = [\<lparr>node_id = 0, max_layer = 0, neighbors = [[1]]\<rparr>,
               \<lparr>node_id = 1, max_layer = 2, neighbors = [[0], [], []]\<rparr>,
               \<lparr>node_id = 2, max_layer = 0, neighbors = [[]]\<rparr>],
      entry_point_id = 1, M = 16, efConstruction = 200, efSearch = 50, distance_metric = L2,
      deleted_nodes = {1}\<rparr>"

text \<open>
  Four equal vectors under the inner-product metric, with \<open>M = 2\<close>; every level is drawn
  as 0, which \<^verbatim>\<open>random_level\<close> returns for \<open>M = 2\<close> whenever the uniform sample
  exceeds one half.
\<close>

definition ip_index :: HNSW where
  "ip_index =
     snd (HNSW_insert
        (snd (HNSW_insert
           (snd (HNSW_insert
              (snd (HNSW_insert (HNSW_new 1 2 10 10 IP) None 0 [2] fmempty))
              None 0 [2] fmempty))
           None 0 [2] fmempty))
        None 0 [2] fmempty)"

text \<open>A database constructed with \<^verbatim>\<open>sq_enabled = true\<close>; its quantizer is not trained.\<close>

definition quantized_db :: Database where
  "quantized_db =
     \<lparr>db_path = ''db'', db_hnsw = HNSW_new 2 16 200 50 L2, db_read_only = False,
      db_cache_size_mb = 0, db_sq = Some (ScalarQuantizer_new 2)\<rparr>"

section \<open>Auxiliary facts\<close>

lemma bind_err_Inr_iff: "bind_err m f = Inr y \<longleftrightarrow> (\<exists>x. m = Inr x \<and> f x = Inr y)"
  by (cases m) auto

lemma bind_err_Inl_iff:
  "bind_err m f = Inl e \<longleftrightarrow> m = Inl e \<or> (\<exists>x. m = Inr x \<and> f x = Inl e)"
  by (cases m) auto

lemma size_t_of_int_small: "0 \<le> i \<Longrightarrow> i < 2 ^ 31 \<Longrightarrow> size_t_of_int i = nat i"
  by (simp add: size_t_of_int_def)

subsection \<open>Rules for evaluating the model on concrete states\<close>

lemma replicate_numeral_unfold: "replicate (numeral k) x = x # replicate (pred_numeral k) x"
  by (simp add: numeral_eq_Suc)

lemma read_n_numeral:
  "read_n rd (numeral k) f =
     (case rd f of
        Inl e \<Rightarrow> Inl e
      | Inr (x, f1) \<Rightarrow>
          (case read_n rd (pred_numeral k) f1 of
             Inl e \<Rightarrow> Inl e
           | Inr (xs, f2) \<Rightarrow> Inr (x # xs, f2)))"
  by (simp add: numeral_eq_Suc)

lemma read_vectors_numeral:
  "read_vectors sq (numeral k) vs f =
     (case read_n read_float (vector_dimension vs) f of
        Inl e \<Rightarrow> Inl e
      | Inr (vec, f1) \<Rightarrow>
          (case read_meta f1 of
             Inl e \<Rightarrow> Inl e
           | Inr (meta, f2) \<Rightarrow>
               (case add_vector vs sq vec meta of
                  (Inl e, _) \<Rightarrow> Inl e
                | (Inr _, vs') \<Rightarrow> read_vectors sq (pred_numeral k) vs' f2)))"
  by (simp add: numeral_eq_Suc)

lemma sorted_list_of_fmap_empty: "sorted_list_of_fmap fmempty = []"
  by (simp add: sorted_list_of_fmap_def sorted_list_of_fset.rep_eq)

lemmas eval_defs =
  size_t_of_int_def uint32_of_int_def uint32_of_size_t_def int_of_uint32_def vec_at_def
  Node_new_def VectorStorage_new_def add_vector_def get_vector_def get_metadata_def HNSW_new_def
  inner_product_def calculate_l2_distance_def calculate_inner_product_distance_def
  calculate_distance_vec_def calculate_distance_def top_max_def stop_search_def admits_def
  trim_def passes_filter_def neighbors_at_def search_loop.simps search_layer_def
  modify_neighbors_def erase_at_def connect_def layers_down_def link_new_node_def
  HNSW_insert_def make_result_def k_nearest_neighbors_def mark_deleted_def Let_def upto.simps
  replicate_numeral_unfold

lemmas db_defs =
  Database_new_def Database_insert_def Database_delete_vector_def Database_query_def
  Database_save_def Database_load_def set_quantizer_def

lemmas io_defs =
  save_contents_def save_node_def save_layer_def save_vector_def save_meta_def save_string_def
  write_floats_def sq_save_def metric_of_int_def load_index_def read_node_def read_layer_def
  read_meta_def read_pair_def read_string_def sq_load_def HNSW_loaded_def encode_all_vectors_def
  read_n_numeral read_vectors_numeral sorted_list_of_fmap_empty

subsection \<open>The example states, evaluated\<close>

lemma single_node_index_eq:
  "single_node_index =
     \<lparr>vector_storage =
        \<lparr>vector_dimension = 1, vectors = [[0]], metadata = [fmempty], encoded_vectors = []\<rparr>,
      nodes = [\<lparr>node_id = 0, max_layer = 0, neighbors = [[]]\<rparr>],
      entry_point_id = 0, M = 16, efConstruction = 200, efSearch = 50, distance_metric = L2,
      deleted_nodes = {}\<rparr>"
  by (simp add: single_node_index_def eval_defs)

lemma two_vectors_inserted:
  "snd (HNSW_insert (snd (HNSW_insert (HNSW_new 2 16 200 50 L2) None 0 [1, 1] fmempty))
          None 0 [2, 2] fmempty) =
     \<lparr>vector_storage =
        \<lparr>vector_dimension = 2, vectors = [[1, 1], [2, 2]], metadata = [fmempty, fmempty],
         encoded_vectors = []\<rparr>,
      nodes = [\<lparr>node_id = 0, max_layer = 0, neighbors = [[1]]\<rparr>,
               \<lparr>node_id = 1, max_layer = 0, neighbors = [[0]]\<rparr>],
      entry_point_id = 0, M = 16, efConstruction = 200, efSearch = 50, distance_metric = L2,
      deleted_nodes = {}\<rparr>"
  by (simp add: eval_defs)

lemma soft_delete_index_eq:
  "soft_delete_index =
     \<lparr>vector_storage =
        \<lparr>vector_dimension = 2, vectors = [[1, 1], [2, 2], [3, 3]],
         metadata = [fmempty, fmempty, fmempty], encoded_vectors = []\<rparr>,
      nodes = [\<lparr>node_id = 0, max_layer = 0, neighbors = [[1, 2]]\<rparr>,
               \<lparr>node_id = 1, max_layer = 0, neighbors = [[0, 2]]\<rparr>,
               \<lparr>node_id = 2, max_layer = 0, neighbors = [[1, 0]]\<rparr>],
      entry_point_id = 0, M = 16, efConstruction = 200, efSearch = 50, distance_metric = L2,
      deleted_nodes = {1}\<rparr>"
  unfolding soft_delete_index_def two_vectors_inserted
  by (simp add: eval_defs)

lemma saved_db_eq:
  "saved_db =
     \<lparr>db_path = ''db'',
      db_hnsw =
        \<lparr>vector_storage =
           \<lparr>vector_dimension = 2, vectors = [[1, 1], [2, 2]], metadata = [fmempty, fmempty],
            encoded_vectors = []\<rparr>,
         nodes = [\<lparr>node_id = 0, max_layer = 1, neighbors = [[1], []]\<rparr>,
                  \<lparr>node_id = 1, max_layer = 0, neighbors = [[0]]\<rparr>],
         entry_point_id = 0, M = 16, efConstruction = 200, efSearch = 50, distance_metric = L2,
         deleted_nodes = {1}\<rparr>,
      db_read_only = False, db_cache_size_mb = 0, db_sq = None\<rparr>"
  by (simp add: saved_db_def fresh_db_def db_defs eval_defs)

lemma saved_db_contents: "save_contents saved_db = Inr saved_file"
  unfolding saved_db_eq
  by (simp add: saved_file_def io_defs eval_defs)

lemma saved_file_loaded:
  "Database_new (no_files(''db'' \<mapsto> saved_file)) ''db'' 2 16 200 50 L2 True 0 False =
     Inr (saved_db\<lparr>db_read_only := True, db_hnsw := reloaded_index\<rparr>)"
  unfolding saved_db_eq
  by (simp add: saved_file_def reloaded_index_def db_defs io_defs eval_defs)

lemma ip_two_inserted:
  "snd (HNSW_insert (snd (HNSW_insert (HNSW_new 1 2 10 10 IP) None 0 [2] fmempty))
          None 0 [2] fmempty) =
     \<lparr>vector_storage =
        \<lparr>vector_dimension = 1, vectors = [[2], [2]], metadata = [fmempty, fmempty],
         encoded_vectors = []\<rparr>,
      nodes = [\<lparr>node_id = 0, max_layer = 0, neighbors = [[1]]\<rparr>,
               \<lparr>node_id = 1, max_layer = 0, neighbors = [[0]]\<rparr>],
      entry_point_id = 0, M = 2, efConstruction = 10, efSearch = 10, distance_metric = IP,
      deleted_nodes = {}\<rparr>"
  by (simp add: eval_defs)

lemma ip_three_inserted:
  "snd (HNSW_insert
          (snd (HNSW_insert (snd (HNSW_insert (HNSW_new 1 2 10 10 IP) None 0 [2] fmempty))
                  None 0 [2] fmempty))
          None 0 [2] fmempty) =
     \<lparr>vector_storage =
        \<lparr>vector_dimension = 1, vectors = [[2], [2], [2]],
         metadata = [fmempty, fmempty, fmempty], encoded_vectors = []\<rparr>,
      nodes = [\<lparr>node_id = 0, max_layer = 0, neighbors = [[1, 2]]\<rparr>,
               \<lparr>node_id = 1, max_layer = 0, neighbors = [[0, 2]]\<rparr>,
               \<lparr>node_id = 2, max_layer = 0, neighbors = [[0, 1]]\<rparr>],
      entry_point_id = 0, M = 2, efConstruction = 10, efSearch = 10, distance_metric = IP,
      deleted_nodes = {}\<rparr>"
  unfolding ip_two_inserted
  by (simp add: eval_defs)

lemma ip_index_eq:
  "ip_index =
     \<lparr>vector_storage =
        \<lparr>vector_dimension = 1, vectors = [[2], [2], [2], [2]],
         metadata = [fmempty, fmempty, fmempty, fmempty], encoded_vectors = []\<rparr>,
      nodes = [\<lparr>node_id = 0, max_layer = 0, neighbors = [[1, 2, 3]]\<rparr>,
               \<lparr>node_id = 1, max_layer = 0, neighbors = [[0, 2, 3]]\<rparr>,
               \<lparr>node_id = 2, max_layer = 0, neighbors = [[0, 1]]\<rparr>,
               \<lparr>node_id = 3, max_layer = 0, neighbors = [[0, 1]]\<rparr>],
      entry_point_id = 0, M = 2, efConstruction = 10, efSearch = 10, distance_metric = IP,
      deleted_nodes = {}\<rparr>"
  unfolding ip_index_def ip_three_inserted
  by (simp add: eval_defs)

subsection \<open>The search loop\<close>

lemma search_loop_empty_queue:
  "candidate_queue s = [] \<Longrightarrow> search_loop h sq query ef layer flt s = Inr s"
  by (simp add: search_loop.simps)

lemma trim_one_nonempty: "rq \<noteq> [] \<Longrightarrow> trim 1 rq \<noteq> []"
  by (simp add: trim_def size_t_of_int_def)

text \<open>With \<open>ef = 1\<close> and no filter, a result queue that holds an element keeps one.\<close>

lemma visit_neighbors_result_nonempty:
  "visit_neighbors h sq query 1 None ns s = Inr s' \<Longrightarrow> result_queue s \<noteq> [] \<Longrightarrow>
     result_queue s' \<noteq> []"
proof (induction ns arbitrary: s)
  case Nil
  then show ?case by simp
next
  case (Cons n ns)
  from Cons.prems obtain u where "visit_neighbors h sq query 1 None ns u = Inr s'"
    and "result_queue u \<noteq> []"
    by (auto simp: Let_def passes_filter_def trim_one_nonempty
        split: if_splits sum.splits bool.splits)
  then show ?case by (rule Cons.IH)
qed

lemma search_loop_result_nonempty:
  "search_loop h sq query ef layer flt s = Inr s' \<Longrightarrow> ef = 1 \<Longrightarrow> flt = None \<Longrightarrow>
     result_queue s \<noteq> [] \<Longrightarrow> result_queue s' \<noteq> []"
proof (induction h sq query ef layer flt s rule: search_loop.induct)
  case (1 h sq query ef layer_level flt s)
  show ?case
  proof (cases "candidate_queue s")
    case Nil
    with "1.prems" show ?thesis by (simp add: search_loop_empty_queue)
  next
    case (Cons current popped)
    show ?thesis
    proof (cases "stop_search ef current (result_queue s)")
      case (Inl e)
      with Cons "1.prems"(1) show ?thesis by (simp add: search_loop.simps)
    next
      case (Inr stop)
      show ?thesis
      proof (cases stop)
        case True
        with Inr Cons "1.prems" show ?thesis by (auto simp: search_loop.simps)
      next
        case False
        then have sf: "stop = False" by simp
        from False Inr Cons "1.prems"(1) obtain nbrs u
          where nb: "neighbors_at (nodes h) (snd current) layer_level = Inr nbrs"
            and vn: "visit_neighbors h sq query ef flt nbrs (s\<lparr>candidate_queue := popped\<rparr>) = Inr u"
            and rest: "search_loop h sq query ef layer_level flt u = Inr s'"
          by (subst (asm) search_loop.simps) (auto split: sum.splits)
        from vn "1.prems" have "result_queue u \<noteq> []"
          by (auto dest: visit_neighbors_result_nonempty)
        with "1.IH" [OF Cons Inr sf nb vn rest] "1.prems" show ?thesis by simp
      qed
    qed
  qed
qed

lemma search_layer_empty_result:
  assumes "search_layer h sq vec ep 1 layer None = Inr []"
  shows "uint32_of_int ep \<in> deleted_nodes h"
proof (rule ccontr)
  assume live: "uint32_of_int ep \<notin> deleted_nodes h"
  from assms live obtain d s where
    "search_loop h sq vec 1 layer None
       \<lparr>candidate_queue = [(d, ep)], result_queue = [(d, ep)], visited_nodes = {ep}\<rparr> = Inr s"
    and "result_queue s = []"
    by (auto simp: search_layer_def passes_filter_def split: sum.splits)
  then show False
    by (auto dest: search_loop_result_nonempty)
qed

lemma search_layer_Inr_distance:
  "search_layer h sq vec ep ef layer flt = Inr r \<Longrightarrow> \<exists>d. calculate_distance h sq vec ep = Inr d"
  by (auto simp: search_layer_def split: sum.splits)

lemma search_layer_of_deleted:
  "uint32_of_int ep \<in> deleted_nodes h \<Longrightarrow> calculate_distance h sq query ep = Inr d \<Longrightarrow>
     search_layer h sq query ep ef layer flt = Inr []"
  by (simp add: search_layer_def search_loop_empty_queue)

lemma descend_continuing_tombstoned:
  "uint32_of_int ep \<in> deleted_nodes h \<Longrightarrow> calculate_distance h sq vec ep = Inr d \<Longrightarrow>
     fst (descend_continuing h sq vec layers ep) = Inr ep"
proof (induction layers)
  case Nil
  show ?case by simp
next
  case (Cons l ls)
  then show ?case
    by (cases "descend_continuing h sq vec ls ep") (simp add: search_layer_of_deleted)
qed

subsection \<open>The errors of a search\<close>

lemma calculate_distance_vec_error:
  "calculate_distance_vec metric a b = Inl e \<Longrightarrow> search_error e"
  by (cases metric)
    (auto simp: calculate_distance_vec_def calculate_l2_distance_def calculate_cosine_distance_def
      calculate_inner_product_distance_def search_error_def Let_def split: if_splits)

lemma sq_calculate_distance_error:
  "sq_calculate_distance q query enc = Inl e \<Longrightarrow> search_error e"
  by (auto simp: sq_calculate_distance_def decode_def search_error_def split: if_splits sum.splits)

lemma vec_at_error: "vec_at xs i = Inl e \<Longrightarrow> search_error e"
  by (auto simp: vec_at_def search_error_def split: if_splits)

lemma calculate_distance_error: "calculate_distance h sq query i = Inl e \<Longrightarrow> search_error e"
  by (auto simp: calculate_distance_def bind_err_Inl_iff get_vector_def get_encoded_vector_def
      split: option.splits if_splits
      dest: vec_at_error calculate_distance_vec_error sq_calculate_distance_error)

lemma top_max_error: "top_max q = Inl e \<Longrightarrow> search_error e"
  by (auto simp: top_max_def search_error_def split: if_splits)

lemma admits_error: "admits ef d rq = Inl e \<Longrightarrow> search_error e"
  by (auto simp: admits_def split: if_splits sum.splits dest: top_max_error)

lemma stop_search_error: "stop_search ef c rq = Inl e \<Longrightarrow> search_error e"
  by (auto simp: stop_search_def split: if_splits sum.splits dest: top_max_error)

lemma passes_filter_error: "passes_filter h flt i = Inl e \<Longrightarrow> search_error e"
  by (auto simp: passes_filter_def get_metadata_def split: option.splits sum.splits
      dest: vec_at_error)

lemma neighbors_at_error: "neighbors_at ns i l = Inl e \<Longrightarrow> search_error e"
  by (auto simp: neighbors_at_def split: sum.splits dest: vec_at_error)

lemma visit_neighbors_error:
  "visit_neighbors h sq query ef flt ns s = Inl e \<Longrightarrow> search_error e"
proof (induction ns arbitrary: s)
  case Nil
  then show ?case by simp
next
  case (Cons n ns)
  from Cons.prems consider
      "calculate_distance h sq query n = Inl e"
    | d where "admits ef d (result_queue (s\<lparr>visited_nodes := insert n (visited_nodes s)\<rparr>)) = Inl e"
    | "passes_filter h flt n = Inl e"
    | u where "visit_neighbors h sq query ef flt ns u = Inl e"
    by (auto simp: Let_def split: if_splits sum.splits bool.splits)
  then show ?case
    by cases (auto dest: calculate_distance_error admits_error passes_filter_error Cons.IH)
qed

lemma search_loop_error:
  "search_loop h sq query ef layer flt s = Inl e \<Longrightarrow> search_error e"
proof (induction h sq query ef layer flt s rule: search_loop.induct)
  case (1 h sq query ef layer_level flt s)
  from "1.prems" obtain current popped where cq: "candidate_queue s = current # popped"
    by (cases "candidate_queue s") (auto simp: search_loop.simps)
  from "1.prems" cq consider
      "stop_search ef current (result_queue s) = Inl e"
    | "neighbors_at (nodes h) (snd current) layer_level = Inl e"
    | nbrs where "visit_neighbors h sq query ef flt nbrs (s\<lparr>candidate_queue := popped\<rparr>) = Inl e"
    | nbrs u where "stop_search ef current (result_queue s) = Inr False"
        "neighbors_at (nodes h) (snd current) layer_level = Inr nbrs"
        "visit_neighbors h sq query ef flt nbrs (s\<lparr>candidate_queue := popped\<rparr>) = Inr u"
        "search_loop h sq query ef layer_level flt u = Inl e"
    by (subst (asm) search_loop.simps) (auto split: sum.splits bool.splits)
  then show ?case
  proof cases
    case 4
    from "1.IH" [OF cq 4(1) refl 4(2) 4(3) 4(4)] show ?thesis .
  qed (auto dest: stop_search_error neighbors_at_error visit_neighbors_error)
qed

lemma search_layer_error:
  "search_layer h sq query ep ef layer flt = Inl e \<Longrightarrow> search_error e"
  by (auto simp: search_layer_def split: sum.splits if_splits
      dest: calculate_distance_error passes_filter_error search_loop_error)

lemma knn_descend_error:
  "knn_descend h sq query flt layers c = Inl e \<Longrightarrow> search_error e"
  by (induction layers arbitrary: c) (auto split: sum.splits list.splits dest: search_layer_error)

lemma make_result_error: "make_result h sq query inc i = Inl e \<Longrightarrow> search_error e"
  by (auto simp: make_result_def bind_err_Inl_iff get_metadata_def get_vector_def
      split: if_splits dest: calculate_distance_error vec_at_error)

lemma collect_results_error:
  "collect_results h sq query k inc ids acc = Inl e \<Longrightarrow> search_error e"
  by (induction ids arbitrary: acc) (auto split: if_splits sum.splits dest: make_result_error)

lemma k_nearest_neighbors_error:
  "k_nearest_neighbors h sq query k flt inc = Inl e \<Longrightarrow> search_error e"
  by (auto simp: k_nearest_neighbors_def split: if_splits sum.splits
      dest: vec_at_error knn_descend_error search_layer_error collect_results_error)

subsection \<open>The loop that assembles the results of a query\<close>

lemma collect_results_spec:
  "collect_results h sq query k inc ids acc = Inr rs \<Longrightarrow>
     length acc \<le> size_t_of_int k \<Longrightarrow>
     \<forall>r \<in> set acc. uint32_of_int (qr_id r) \<notin> deleted_nodes h \<Longrightarrow>
     length rs \<le> size_t_of_int k \<and> (\<forall>r \<in> set rs. uint32_of_int (qr_id r) \<notin> deleted_nodes h)"
proof (induction ids arbitrary: acc)
  case Nil
  then show ?case by simp
next
  case (Cons i ids)
  show ?case
  proof (cases "uint32_of_int i \<in> deleted_nodes h")
    case True
    with Cons show ?thesis by simp
  next
    case live: False
    show ?thesis
    proof (cases "length acc \<ge> size_t_of_int k")
      case True
      with live Cons.prems show ?thesis by simp
    next
      case False
      with live Cons.prems(1) obtain r where r: "make_result h sq query inc i = Inr r"
        and rest: "collect_results h sq query k inc ids (acc @ [r]) = Inr rs"
        by (auto split: sum.splits)
      from r have "qr_id r = i"
        by (auto simp: make_result_def bind_err_Inr_iff)
      with live Cons.prems(3) False show ?thesis
        by (intro Cons.IH [OF rest]) auto
    qed
  qed
qed

subsection \<open>Persistence: what \<^verbatim>\<open>load\<close> reads back from what \<^verbatim>\<open>save\<close> wrote\<close>

lemma map_err_Inr: "(\<And>x. x \<in> set xs \<Longrightarrow> f x = Inr (g x)) \<Longrightarrow> map_err f xs = Inr (map g xs)"
  by (induction xs) simp_all

lemma read_n_concat:
  "(\<And>x r. x \<in> set xs \<Longrightarrow> rd (enc x @ r) = Inr (x, r)) \<Longrightarrow>
     read_n rd (length xs) (concat (map enc xs) @ r) = Inr (xs, r)"
  by (induction xs) simp_all

lemma read_floats: "read_n read_float (length xs) (map FFloat xs @ r) = Inr (xs, r)"
  using read_n_concat [of xs read_float "\<lambda>x. [FFloat x]" r] by (simp add: concat_map_singleton)

lemma read_ints: "read_n read_int (length xs) (map FInt xs @ r) = Inr (xs, r)"
  using read_n_concat [of xs read_int "\<lambda>x. [FInt x]" r] by (simp add: concat_map_singleton)

lemma read_u32s: "read_n read_u32 (length xs) (map FU32 xs @ r) = Inr (xs, r)"
  using read_n_concat [of xs read_u32 "\<lambda>x. [FU32 x]" r] by (simp add: concat_map_singleton)

lemma read_bytes: "read_n read_byte (length xs) (map FByte xs @ r) = Inr (xs, r)"
  using read_n_concat [of xs read_byte "\<lambda>x. [FByte x]" r] by (simp add: concat_map_singleton)

lemma read_layer_fields: "read_layer (layer_fields l @ r) = Inr (l, r)"
  by (simp add: read_layer_def layer_fields_def read_ints)

lemma upto_as_upt: "[0..int n - 1] = map int [0..<n]"
proof (induction n)
  case 0
  show ?case by simp
next
  case (Suc n)
  have "[0..int (Suc n) - 1] = [0..int n - 1] @ [int n]"
    using upto_rec2 [of 0 "int n"] by simp
  with Suc show ?case by simp
qed

lemma save_node_fields:
  assumes "wf_node n"
  shows "save_node n =
     Inr (FU32 (node_id n) # FInt (max_layer n) # concat (map layer_fields (neighbors n)))"
proof -
  let ?k = "length (neighbors n)"
  from assms have k: "max_layer n = int ?k - 1" and small: "int ?k \<le> 2 ^ 31"
    by (auto simp: wf_node_def)
  have "map_err (save_layer n) (map int [0..<?k])
      = Inr (map (\<lambda>i. layer_fields (neighbors n ! nat i)) (map int [0..<?k]))"
  proof (rule map_err_Inr)
    fix x assume "x \<in> set (map int [0..<?k])"
    then have "0 \<le> x" "x < int ?k" by auto
    with small show "save_layer n x = Inr (layer_fields (neighbors n ! nat x))"
      by (simp add: save_layer_def size_t_of_int_small vec_at_def layer_fields_def)
  qed
  moreover have "map (\<lambda>i. layer_fields (neighbors n ! nat i)) (map int [0..<?k])
      = map layer_fields (neighbors n)"
    by (rule nth_equalityI) simp_all
  ultimately show ?thesis
    by (simp add: save_node_def k upto_as_upt)
qed

lemma read_node_fields:
  assumes "wf_node n"
  shows "read_node (FU32 (node_id n) # FInt (max_layer n) # concat (map layer_fields (neighbors n)) @ r)
     = Inr (n, r)"
proof -
  from assms have len: "length [0..max_layer n] = length (neighbors n)"
    by (auto simp: wf_node_def)
  have "read_n read_layer (length (neighbors n)) (concat (map layer_fields (neighbors n)) @ r)
      = Inr (neighbors n, r)"
    by (rule read_n_concat) (rule read_layer_fields)
  with assms len show ?thesis
    by (simp add: read_node_def Node_new_def wf_node_def del: length_upto)
qed

lemma read_string_fields: "read_string (save_string str @ r) = Inr (str, r)"
  by (simp add: read_string_def save_string_def read_bytes)

lemma read_pair_fields: "read_pair (pair_fields kv @ r) = Inr (kv, r)"
  by (simp add: read_pair_def pair_fields_def read_string_fields)

lemma fold_fmupd_lookup:
  "fmlookup (fold (\<lambda>(k, v) m. fmupd k v m) kvs m0) k =
     (case map_of (rev kvs) k of Some v \<Rightarrow> Some v | None \<Rightarrow> fmlookup m0 k)"
  by (induction kvs arbitrary: m0) (auto split: option.splits)

lemma map_of_rev_distinct: "distinct (map fst xs) \<Longrightarrow> map_of (rev xs) = map_of xs"
proof (induction xs)
  case Nil
  show ?case by simp
next
  case (Cons kv xs)
  obtain k v where kv: "kv = (k, v)" by (cases kv)
  from Cons.prems kv have "map_of xs k = None"
    by (simp add: map_of_eq_None_iff)
  with Cons kv show ?case
    by (auto simp: fun_eq_iff map_add_def split: option.splits)
qed

lemma fold_fmupd_sorted_list:
  "fold (\<lambda>(k, v) m. fmupd k v m) (sorted_list_of_fmap meta) fmempty = meta"
proof (rule fmap_ext)
  fix k
  have "distinct (map fst (sorted_list_of_fmap meta))"
    by (simp add: sorted_list_of_fmap_def comp_def sorted_list_of_fset.rep_eq)
  then have "map_of (rev (sorted_list_of_fmap meta)) = map_of (sorted_list_of_fmap meta)"
    by (rule map_of_rev_distinct)
  then show "fmlookup (fold (\<lambda>(k, v) m. fmupd k v m) (sorted_list_of_fmap meta) fmempty) k
      = fmlookup meta k"
    by (simp add: fold_fmupd_lookup split: option.splits)
qed

lemma save_meta_fields:
  "save_meta meta =
     FSize (length (sorted_list_of_fmap meta)) # concat (map pair_fields (sorted_list_of_fmap meta))"
  by (simp add: save_meta_def pair_fields_def [abs_def] case_prod_unfold)

lemma read_meta_fields: "read_meta (save_meta meta @ r) = Inr (meta, r)"
proof -
  have "read_n read_pair (length (sorted_list_of_fmap meta))
      (concat (map pair_fields (sorted_list_of_fmap meta)) @ r) = Inr (sorted_list_of_fmap meta, r)"
    by (rule read_n_concat) (rule read_pair_fields)
  then show ?thesis
    by (simp add: read_meta_def save_meta_fields fold_fmupd_sorted_list)
qed

lemma vector_fields_pair: "vector_fields (v, m) = map FFloat v @ save_meta m"
  by (simp add: vector_fields_def)

lemma save_vectors_fields:
  assumes "list_all (\<lambda>v. length v = vector_dimension vs) (vectors vs)"
    and "length (metadata vs) = length (vectors vs)"
  shows "map_err (save_vector vs) [0..<length (vectors vs)]
     = Inr (map vector_fields (zip (vectors vs) (metadata vs)))"
proof -
  have "map_err (save_vector vs) [0..<length (vectors vs)]
      = Inr (map (\<lambda>i. vector_fields (vectors vs ! i, metadata vs ! i)) [0..<length (vectors vs)])"
  proof (rule map_err_Inr)
    fix i assume "i \<in> set [0..<length (vectors vs)]"
    then have i: "i < length (vectors vs)" by simp
    with assms(1) have "length (vectors vs ! i) = vector_dimension vs"
      by (simp add: list_all_length)
    with i assms(2) show "save_vector vs i = Inr (vector_fields (vectors vs ! i, metadata vs ! i))"
      by (simp add: save_vector_def get_vector_def get_metadata_def vec_at_def write_floats_def
          vector_fields_pair)
  qed
  moreover have "map (\<lambda>i. vector_fields (vectors vs ! i, metadata vs ! i)) [0..<length (vectors vs)]
      = map vector_fields (zip (vectors vs) (metadata vs))"
    using assms(2) by (intro nth_equalityI) simp_all
  ultimately show ?thesis by simp
qed

lemma add_vector_succeeds:
  assumes "encodes sq (vector_dimension vs)" and "length v = vector_dimension vs"
  shows "\<exists>vs'. add_vector vs sq v m = (Inr (), vs') \<and> vectors vs' = vectors vs @ [v]
      \<and> metadata vs' = metadata vs @ [m] \<and> vector_dimension vs' = vector_dimension vs"
proof (cases sq)
  case None
  with assms show ?thesis by (simp add: add_vector_def)
next
  case (Some q)
  show ?thesis
  proof (cases "is_trained q")
    case False
    with Some assms show ?thesis by (simp add: add_vector_def)
  next
    case True
    with Some assms have "mins q \<noteq> []" "maxs q \<noteq> []"
      by (auto simp: encodes_def is_trained_def)
    with Some assms obtain enc where "encode q v = Inr enc"
      by (auto simp: encodes_def encode_def)
    with True Some assms show ?thesis by (simp add: add_vector_def Let_def)
  qed
qed

lemma read_vectors_fields:
  assumes "encodes sq (vector_dimension acc)"
    and "list_all (\<lambda>v. length v = vector_dimension acc) (map fst vms)"
  shows "\<exists>vs'. read_vectors sq (length vms) acc (concat (map vector_fields vms) @ r) = Inr (vs', r)
      \<and> vectors vs' = vectors acc @ map fst vms \<and> metadata vs' = metadata acc @ map snd vms
      \<and> vector_dimension vs' = vector_dimension acc"
  using assms
proof (induction vms arbitrary: acc)
  case Nil
  show ?case by simp
next
  case (Cons vm vms)
  obtain v m where vm: "vm = (v, m)" by (cases vm)
  from Cons.prems vm have lv: "length v = vector_dimension acc" by simp
  from add_vector_succeeds [OF Cons.prems(1) lv, of m] obtain acc' where
    add: "add_vector acc sq v m = (Inr (), acc')" and v': "vectors acc' = vectors acc @ [v]"
    and m': "metadata acc' = metadata acc @ [m]" and d': "vector_dimension acc' = vector_dimension acc"
    by blast
  from Cons.prems d' have "encodes sq (vector_dimension acc')"
    and "list_all (\<lambda>v. length v = vector_dimension acc') (map fst vms)"
    by simp_all
  from Cons.IH [OF this] obtain vs' where
    "read_vectors sq (length vms) acc' (concat (map vector_fields vms) @ r) = Inr (vs', r)"
    "vectors vs' = vectors acc' @ map fst vms" "metadata vs' = metadata acc' @ map snd vms"
    "vector_dimension vs' = vector_dimension acc'"
    by blast
  moreover have "read_n read_float (vector_dimension acc) (map FFloat v @ save_meta m
        @ concat (map vector_fields vms) @ r) = Inr (v, save_meta m @ concat (map vector_fields vms) @ r)"
    using read_floats [of v] lv by simp
  ultimately show ?case
    using vm add v' m' d'
    by (simp add: vector_fields_pair read_meta_fields)
qed

lemma map_err_succeeds:
  "(\<And>x. x \<in> set xs \<Longrightarrow> \<exists>y. f x = Inr y) \<Longrightarrow> \<exists>ys. map_err f xs = Inr ys"
proof (induction xs)
  case Nil
  show ?case by simp
next
  case (Cons x xs)
  then obtain y ys where "f x = Inr y" "map_err f xs = Inr ys"
    by (metis list.set_intros)
  then show ?case by simp
qed

lemma encode_all_vectors_succeeds:
  assumes "encodes sq (vector_dimension vs)"
    and "list_all (\<lambda>v. length v = vector_dimension vs) (vectors vs)"
  shows "\<exists>vs'. encode_all_vectors vs sq = Inr vs' \<and> vectors vs' = vectors vs
      \<and> metadata vs' = metadata vs \<and> vector_dimension vs' = vector_dimension vs"
proof (cases sq)
  case None
  then show ?thesis by (simp add: encode_all_vectors_def)
next
  case (Some q)
  show ?thesis
  proof (cases "is_trained q")
    case False
    with Some show ?thesis by (simp add: encode_all_vectors_def)
  next
    case True
    with Some assms(1) have ne: "mins q \<noteq> []" "maxs q \<noteq> []"
      by (auto simp: encodes_def is_trained_def)
    have "\<exists>encs. map_err (encode q) (vectors vs) = Inr encs"
    proof (rule map_err_succeeds)
      fix v assume "v \<in> set (vectors vs)"
      with assms(2) have "length v = vector_dimension vs"
        by (simp add: list_all_iff)
      with ne Some assms(1) show "\<exists>y. encode q v = Inr y"
        by (simp add: encodes_def encode_def)
    qed
    with True Some show ?thesis by (auto simp: encode_all_vectors_def)
  qed
qed

lemma sq_save_fields:
  "length (mins q) = original_dim q \<Longrightarrow> length (maxs q) = original_dim q \<Longrightarrow>
     sq_save q = Inr (quantizer_fields q)"
  by (simp add: sq_save_def write_floats_def quantizer_fields_def)

lemma sq_load_fields:
  "length (mins q) = original_dim q \<Longrightarrow> length (maxs q) = original_dim q \<Longrightarrow>
     sq_load (quantizer_fields q @ r) = Inr (q, r)"
  using read_floats [of "mins q" "map FFloat (maxs q) @ r"] read_floats [of "maxs q" r]
  by (simp add: sq_load_def quantizer_fields_def)

lemma save_contents_fields:
  assumes "storable db"
  shows "save_contents db =
     Inr (FBool (db_sq db \<noteq> None)
          # (case db_sq db of None \<Rightarrow> [] | Some q \<Rightarrow> quantizer_fields q)
          @ index_fields (db_hnsw db))"
proof -
  let ?h = "db_hnsw db" and ?vs = "vector_storage (db_hnsw db)"
  from assms have q: "(case db_sq db of None \<Rightarrow> Inr [] | Some q \<Rightarrow> sq_save q)
      = Inr (case db_sq db of None \<Rightarrow> [] | Some q \<Rightarrow> quantizer_fields q)"
    by (auto simp: storable_def Let_def sq_save_fields split: option.splits)
  from assms have "map_err save_node (nodes ?h) = Inr (map node_fields (nodes ?h))"
    by (intro map_err_Inr) (auto simp: storable_def Let_def list_all_iff save_node_fields node_fields_def)
  moreover from assms have "map_err (save_vector ?vs) [0..<length (vectors ?vs)]
      = Inr (map vector_fields (zip (vectors ?vs) (metadata ?vs)))"
    by (intro save_vectors_fields) (simp_all add: storable_def Let_def)
  ultimately show ?thesis
    using q by (simp add: save_contents_def index_fields_def Let_def)
qed

lemma load_index_fields:
  assumes "encodes sq (vector_dimension (vector_storage h))"
    and "list_all (\<lambda>v. length v = vector_dimension (vector_storage h)) (vectors (vector_storage h))"
    and "length (metadata (vector_storage h)) = length (vectors (vector_storage h))"
    and "list_all wf_node (nodes h)"
    and "distance_metric h = metric_of_int (metric_to_int (distance_metric h))"
    and "finite (deleted_nodes h)"
  shows "\<exists>h'. load_index sq sq_enabled (index_fields h) = Inr h'
      \<and> nodes h' = nodes h
      \<and> vectors (vector_storage h') = vectors (vector_storage h)
      \<and> metadata (vector_storage h') = metadata (vector_storage h)
      \<and> vector_dimension (vector_storage h') = vector_dimension (vector_storage h)
      \<and> deleted_nodes h' = deleted_nodes h
      \<and> M h' = M h \<and> efConstruction h' = efConstruction h \<and> efSearch h' = efSearch h
      \<and> distance_metric h' = distance_metric h"
proof -
  let ?vs = "vector_storage h"
  let ?vms = "zip (vectors ?vs) (metadata ?vs)"
  let ?del = "FSize (card (deleted_nodes h)) # map FU32 (sorted_list_of_set (deleted_nodes h))"
  have rn: "read_n read_node (length (nodes h)) (concat (map node_fields (nodes h)) @ r)
      = Inr (nodes h, r)" for r
  proof (rule read_n_concat)
    fix n r assume "n \<in> set (nodes h)"
    with assms(4) have "wf_node n" by (simp add: list_all_iff)
    then show "read_node (node_fields n @ r) = Inr (n, r)"
      by (simp add: node_fields_def read_node_fields)
  qed
  from assms(3) have fst_snd: "map fst ?vms = vectors ?vs" "map snd ?vms = metadata ?vs"
    and len: "length ?vms = length (vectors ?vs)"
    by simp_all
  have "encodes sq (vector_dimension (VectorStorage_new (vector_dimension ?vs)))"
    and "list_all (\<lambda>v. length v = vector_dimension (VectorStorage_new (vector_dimension ?vs)))
      (map fst ?vms)"
    using assms(1,2) fst_snd by (simp_all add: VectorStorage_new_def)
  from read_vectors_fields [OF this, of ?del] obtain vs1 where
    rv: "read_vectors sq (length (vectors ?vs)) (VectorStorage_new (vector_dimension ?vs))
          (concat (map vector_fields ?vms) @ ?del) = Inr (vs1, ?del)"
    and v1: "vectors vs1 = vectors ?vs" and m1: "metadata vs1 = metadata ?vs"
    and d1: "vector_dimension vs1 = vector_dimension ?vs"
    using fst_snd len by (auto simp: VectorStorage_new_def)
  from assms(1,2) v1 d1 have "encodes sq (vector_dimension vs1)"
    and "list_all (\<lambda>v. length v = vector_dimension vs1) (vectors vs1)"
    by simp_all
  from encode_all_vectors_succeeds [OF this] obtain vs2 where
    ea: "encode_all_vectors vs1 sq = Inr vs2" and v2: "vectors vs2 = vectors vs1"
    and m2: "metadata vs2 = metadata vs1" and d2: "vector_dimension vs2 = vector_dimension vs1"
    by blast
  obtain vs3 where vs3: "(if sq_enabled then encode_all_vectors vs1 sq else Inr vs1) = Inr vs3"
    and v3: "vectors vs3 = vectors vs1" and m3: "metadata vs3 = metadata vs1"
    and d3: "vector_dimension vs3 = vector_dimension vs1"
    using ea v2 m2 d2 by (cases sq_enabled) auto
  have rd: "read_n read_u32 (card (deleted_nodes h)) (map FU32 (sorted_list_of_set (deleted_nodes h)))
      = Inr (sorted_list_of_set (deleted_nodes h), [])"
    using read_u32s [of "sorted_list_of_set (deleted_nodes h)" "[]"] by simp
  have "load_index sq sq_enabled (index_fields h) =
      Inr (HNSW_loaded (M h) (efConstruction h) (efSearch h)
             (metric_of_int (metric_to_int (distance_metric h))) (nodes h) vs3
             (set (sorted_list_of_set (deleted_nodes h))))"
    by (simp add: load_index_def index_fields_def read_n_numeral rn rv vs3 rd)
  with assms(5,6) v1 m1 d1 v3 m3 d3 show ?thesis
    by (simp add: HNSW_loaded_def)
qed

subsection \<open>The entry point under insertion and deletion\<close>

lemma modify_neighbors_frame: "modify_neighbors h i l f = Inr h' \<Longrightarrow> frame h' = frame h"
  by (auto simp: modify_neighbors_def vec_at_def frame_def map_update list_update_same_conv
      split: if_splits sum.splits)

lemma connect_frame: "connect h sq new_id layer nb = Inr h' \<Longrightarrow> frame h' = frame h"
  by (auto simp: connect_def bind_err_Inr_iff split: if_splits dest!: modify_neighbors_frame)

lemma connect_all_frame: "connect_all h sq new_id layer nbs = Inr h' \<Longrightarrow> frame h' = frame h"
proof (induction nbs arbitrary: h)
  case Nil
  then show ?case by simp
next
  case (Cons nb nbs)
  then obtain h1 where "connect h sq new_id layer nb = Inr h1"
    "connect_all h1 sq new_id layer nbs = Inr h'"
    by (auto split: sum.splits)
  with Cons.IH [of h1] show ?case by (simp add: connect_frame)
qed

lemma connect_layers_frame:
  "connect_layers sq vec new_id layers cur h = Inr h' \<Longrightarrow> frame h' = frame h"
proof (induction layers arbitrary: cur h)
  case Nil
  then show ?case by simp
next
  case (Cons l ls)
  from Cons.prems consider
      "connect_layers sq vec new_id ls cur h = Inr h'"
    | first h1 nbs where "connect_all h sq new_id l nbs = Inr h1"
        "connect_layers sq vec new_id ls first h1 = Inr h'"
    by (auto split: sum.splits list.splits)
  then show ?case
  proof cases
    case 1
    then show ?thesis by (rule Cons.IH)
  next
    case 2
    with Cons.IH [of first h1] show ?thesis by (simp add: connect_all_frame)
  qed
qed

lemma link_new_node_frame:
  "link_new_node h sq new_id new_layer vec = Inr h' \<Longrightarrow> frame h' = frame h"
  by (auto simp: link_new_node_def Let_def split: sum.splits dest: connect_layers_frame)

lemma rescan_result: "rescan_kept D ns ep ml \<or> (\<exists>m. rescan_found D ns ep ml m)"
proof (induction ns arbitrary: ep ml)
  case Nil
  show ?case by (simp add: rescan_kept_def)
next
  case (Cons n ns)
  show ?case
  proof (cases "node_id n \<notin> D \<and> max_layer n > ml")
    case True
    then have step: "rescan D (n # ns) ep ml = rescan D ns (int_of_uint32 (node_id n)) (max_layer n)"
      by simp
    from Cons.IH [of "int_of_uint32 (node_id n)" "max_layer n"]
    show ?thesis
    proof
      assume "rescan_kept D ns (int_of_uint32 (node_id n)) (max_layer n)"
      with True step have "rescan_found D (n # ns) ep ml n"
        by (simp add: rescan_kept_def rescan_found_def)
      then show ?thesis by blast
    next
      assume "\<exists>m. rescan_found D ns (int_of_uint32 (node_id n)) (max_layer n) m"
      then obtain m where "rescan_found D ns (int_of_uint32 (node_id n)) (max_layer n) m" ..
      with True step have "rescan_found D (n # ns) ep ml m"
        by (simp add: rescan_found_def)
      then show ?thesis by blast
    qed
  next
    case False
    then have step: "rescan D (n # ns) ep ml = rescan D ns ep ml"
      by auto
    from False have n: "node_id n \<in> D \<or> max_layer n \<le> ml"
      by auto
    from Cons.IH [of ep ml]
    show ?thesis
    proof
      assume "rescan_kept D ns ep ml"
      with n step have "rescan_kept D (n # ns) ep ml"
        by (simp add: rescan_kept_def)
      then show ?thesis by blast
    next
      assume "\<exists>m. rescan_found D ns ep ml m"
      then obtain m where m: "rescan_found D ns ep ml m" ..
      then have "ml < max_layer m" by (simp add: rescan_found_def)
      with n have "node_id n \<in> D \<or> max_layer n \<le> max_layer m" by auto
      with m step have "rescan_found D (n # ns) ep ml m"
        by (simp add: rescan_found_def)
      then show ?thesis by blast
    qed
  qed
qed

lemma int_of_uint32_small: "n < 2 ^ 31 \<Longrightarrow> int_of_uint32 n = int n"
  by (simp add: int_of_uint32_def)

lemma uint32_of_int_small: "0 \<le> i \<Longrightarrow> i < 2 ^ 31 \<Longrightarrow> uint32_of_int i = nat i"
  by (simp add: uint32_of_int_def)

text \<open>The invariant, without \<open>Max\<close>.\<close>

lemma entry_point_okI:
  assumes "\<And>n. n \<in> set (nodes h) \<Longrightarrow> node_id n \<notin> deleted_nodes h \<Longrightarrow>
      0 \<le> entry_point_id h \<and> nat (entry_point_id h) < length (nodes h)
      \<and> node_id (nodes h ! nat (entry_point_id h)) \<notin> deleted_nodes h
      \<and> max_layer n \<le> max_layer (nodes h ! nat (entry_point_id h))"
    and "(\<And>n. n \<in> set (nodes h) \<Longrightarrow> node_id n \<in> deleted_nodes h) \<Longrightarrow> entry_point_id h = - 1"
  shows "entry_point_ok h"
proof (cases "live_layers h = []")
  case True
  then have "\<And>n. n \<in> set (nodes h) \<Longrightarrow> node_id n \<in> deleted_nodes h"
    by (auto simp: live_layers_def filter_empty_conv)
  with assms(2) True show ?thesis by (simp add: entry_point_ok_def)
next
  case False
  then obtain n where n: "n \<in> set (nodes h)" "node_id n \<notin> deleted_nodes h"
    by (auto simp: live_layers_def filter_empty_conv)
  let ?e = "nodes h ! nat (entry_point_id h)"
  from assms(1) [OF n] have e: "0 \<le> entry_point_id h" "nat (entry_point_id h) < length (nodes h)"
    "node_id ?e \<notin> deleted_nodes h"
    by simp_all
  have "Max (set (live_layers h)) = max_layer ?e"
  proof (rule Max_eqI)
    show "finite (set (live_layers h))" by simp
    show "max_layer ?e \<in> set (live_layers h)"
      using e by (auto simp: live_layers_def)
    fix y assume "y \<in> set (live_layers h)"
    then obtain m where "m \<in> set (nodes h)" "node_id m \<notin> deleted_nodes h" "y = max_layer m"
      by (auto simp: live_layers_def)
    with assms(1) [of m] show "y \<le> max_layer ?e" by simp
  qed
  with False e show ?thesis by (simp add: entry_point_ok_def)
qed

lemma entry_point_okD:
  assumes "entry_point_ok h" and "n \<in> set (nodes h)" and "node_id n \<notin> deleted_nodes h"
  shows "0 \<le> entry_point_id h" and "nat (entry_point_id h) < length (nodes h)"
    and "node_id (nodes h ! nat (entry_point_id h)) \<notin> deleted_nodes h"
    and "max_layer n \<le> max_layer (nodes h ! nat (entry_point_id h))"
proof -
  from assms(2,3) have ne: "live_layers h \<noteq> []" and mem: "max_layer n \<in> set (live_layers h)"
    by (auto simp: live_layers_def filter_empty_conv)
  with assms(1) show "0 \<le> entry_point_id h" "nat (entry_point_id h) < length (nodes h)"
    "node_id (nodes h ! nat (entry_point_id h)) \<notin> deleted_nodes h"
    by (simp_all add: entry_point_ok_def)
  from assms(1) ne have "max_layer (nodes h ! nat (entry_point_id h)) = Max (set (live_layers h))"
    by (simp add: entry_point_ok_def)
  with mem show "max_layer n \<le> max_layer (nodes h ! nat (entry_point_id h))"
    by simp
qed

lemma entry_point_ok_none:
  "entry_point_ok h \<Longrightarrow> entry_point_id h = - 1 \<Longrightarrow> n \<in> set (nodes h) \<Longrightarrow>
     node_id n \<in> deleted_nodes h"
  by (rule ccontr) (use entry_point_okD(1) [of h n] in simp)

lemma ids_ok_node:
  "ids_ok h \<Longrightarrow> n \<in> set (nodes h) \<Longrightarrow>
     node_id n < length (nodes h) \<and> nodes h ! node_id n = n \<and> 0 \<le> max_layer n"
  by (auto simp: ids_ok_def list_all_iff in_set_conv_nth)

lemma live_layers_zip:
  "map max_layer (filter (\<lambda>n. node_id n \<notin> D) ns)
     = map snd (filter (\<lambda>p. fst p \<notin> D) (zip (map node_id ns) (map max_layer ns)))"
  by (induction ns) simp_all

lemma frame_nodes:
  assumes "frame h2 = frame h1"
  shows "length (nodes h2) = length (nodes h1)"
    and "j < length (nodes h1) \<Longrightarrow> node_id (nodes h2 ! j) = node_id (nodes h1 ! j)"
    and "j < length (nodes h1) \<Longrightarrow> max_layer (nodes h2 ! j) = max_layer (nodes h1 ! j)"
    and "live_layers h2 = live_layers h1"
proof -
  from assms have ids: "map node_id (nodes h2) = map node_id (nodes h1)"
    and ls: "map max_layer (nodes h2) = map max_layer (nodes h1)"
    and d: "deleted_nodes h2 = deleted_nodes h1"
    by (simp_all add: frame_def)
  from ids show len: "length (nodes h2) = length (nodes h1)"
    by (rule map_eq_imp_length_eq)
  show "node_id (nodes h2 ! j) = node_id (nodes h1 ! j)" if "j < length (nodes h1)"
    using that len ids by (metis nth_map)
  show "max_layer (nodes h2 ! j) = max_layer (nodes h1 ! j)" if "j < length (nodes h1)"
    using that len ls by (metis nth_map)
  show "live_layers h2 = live_layers h1"
    by (simp add: live_layers_def live_layers_zip ids ls d)
qed

lemma entry_point_ok_cong:
  assumes "frame h2 = frame h1"
  shows "entry_point_ok h2 = entry_point_ok h1"
proof -
  from assms have d: "deleted_nodes h2 = deleted_nodes h1"
    and e: "entry_point_id h2 = entry_point_id h1"
    by (simp_all add: frame_def)
  note fn = frame_nodes [OF assms]
  show ?thesis
    unfolding entry_point_ok_def fn(1,4) e d
    using fn(2,3) [of "nat (entry_point_id h1)"] by auto
qed

lemma ids_ok_cong:
  assumes "frame h2 = frame h1"
  shows "ids_ok h2 = ids_ok h1"
proof -
  from assms have d: "deleted_nodes h2 = deleted_nodes h1"
    and v: "vector_storage h2 = vector_storage h1"
    by (simp_all add: frame_def)
  note fn = frame_nodes [OF assms]
  show ?thesis
    unfolding ids_ok_def fn(1) d v list_all_iff
    using fn(2,3) by auto
qed

lemma appended_ids_ok:
  assumes ids: "ids_ok h" and room: "Suc (length (nodes h)) < 2 ^ 31"
    and vs: "length (vectors vs) = Suc (length (nodes h))"
    and node: "node_id node = length (nodes h)" "0 \<le> max_layer node"
  shows "ids_ok (h\<lparr>vector_storage := vs, nodes := nodes h @ [node], entry_point_id := e\<rparr>)"
  using assms
  by (auto simp: ids_ok_def list_all_iff nth_append)

lemma appended_entry_point_ok:
  assumes ids: "ids_ok h" and ok: "entry_point_ok h"
    and node: "node_id node = length (nodes h)"
    and e: "if entry_point_id h = - 1 \<or> max_layer node > max_layer (nodes h ! nat (entry_point_id h))
            then e = int (length (nodes h)) else e = entry_point_id h"
  shows "entry_point_ok (h\<lparr>vector_storage := vs, nodes := nodes h @ [node], entry_point_id := e\<rparr>)"
    (is "entry_point_ok ?h'")
proof -
  let ?k = "length (nodes h)"
  from ids have fresh: "?k \<notin> deleted_nodes h"
    by (auto simp: ids_ok_def)
  have old: "n \<in> set (nodes h) \<Longrightarrow> node_id n \<notin> deleted_nodes h \<Longrightarrow>
      entry_point_id h \<noteq> - 1 \<and> nat (entry_point_id h) < ?k
      \<and> node_id (nodes h ! nat (entry_point_id h)) \<notin> deleted_nodes h
      \<and> max_layer n \<le> max_layer (nodes h ! nat (entry_point_id h))" for n
    using entry_point_okD [OF ok] by force
  show ?thesis
  proof (cases "entry_point_id h = - 1 \<or> max_layer node > max_layer (nodes h ! nat (entry_point_id h))")
    case True
    with e have e': "e = int ?k" by simp
    show ?thesis
    proof (rule entry_point_okI)
      fix n assume "n \<in> set (nodes ?h')" and live: "node_id n \<notin> deleted_nodes ?h'"
      then consider "n = node" | "n \<in> set (nodes h)" by auto
      then have "max_layer n \<le> max_layer node"
      proof cases
        case 1
        then show ?thesis by simp
      next
        case 2
        with live old [of n] True show ?thesis by auto
      qed
      with e' node fresh show "0 \<le> entry_point_id ?h' \<and> nat (entry_point_id ?h') < length (nodes ?h')
          \<and> node_id (nodes ?h' ! nat (entry_point_id ?h')) \<notin> deleted_nodes ?h'
          \<and> max_layer n \<le> max_layer (nodes ?h' ! nat (entry_point_id ?h'))"
        by simp
    next
      assume "\<And>n. n \<in> set (nodes ?h') \<Longrightarrow> node_id n \<in> deleted_nodes ?h'"
      from this [of node] node fresh show "entry_point_id ?h' = - 1" by simp
    qed
  next
    case False
    with e have e': "e = entry_point_id h" and ne: "entry_point_id h \<noteq> - 1"
      and le: "max_layer node \<le> max_layer (nodes h ! nat (entry_point_id h))"
      by auto
    from ok ne obtain m where m: "m \<in> set (nodes h)" "node_id m \<notin> deleted_nodes h"
      by (auto simp: entry_point_ok_def live_layers_def filter_empty_conv split: if_splits)
    note ent = entry_point_okD [OF ok m]
    show ?thesis
    proof (rule entry_point_okI)
      fix n assume "n \<in> set (nodes ?h')" and live: "node_id n \<notin> deleted_nodes ?h'"
      then consider "n = node" | "n \<in> set (nodes h)" by auto
      then have "max_layer n \<le> max_layer (nodes h ! nat (entry_point_id h))"
      proof cases
        case 1
        with le show ?thesis by simp
      next
        case 2
        with live old [of n] show ?thesis by simp
      qed
      with e' ent show "0 \<le> entry_point_id ?h' \<and> nat (entry_point_id ?h') < length (nodes ?h')
          \<and> node_id (nodes ?h' ! nat (entry_point_id ?h')) \<notin> deleted_nodes ?h'
          \<and> max_layer n \<le> max_layer (nodes ?h' ! nat (entry_point_id ?h'))"
        by (simp add: nth_append)
    next
      assume "\<And>n. n \<in> set (nodes ?h') \<Longrightarrow> node_id n \<in> deleted_nodes ?h'"
      from this [of m] m show "entry_point_id ?h' = - 1" by simp
    qed
  qed
qed

lemma add_vector_Inr:
  "add_vector vs sq vec meta = (Inr u, vs') \<Longrightarrow>
     vectors vs' = vectors vs @ [vec] \<and> metadata vs' = metadata vs @ [meta]
     \<and> vector_dimension vs' = vector_dimension vs \<and> length vec = vector_dimension vs"
  by (auto simp: add_vector_def Let_def split: if_splits option.splits sum.splits)

lemma HNSW_new_invariants: "ids_ok (HNSW_new d m efc efs metric) \<and> entry_point_ok (HNSW_new d m efc efs metric)"
  by (simp add: ids_ok_def entry_point_ok_def live_layers_def HNSW_new_def VectorStorage_new_def)

subsection \<open>The pruning step of an insertion\<close>

lemma furthest_scan_result:
  "furthest_scan h sq v cs i md idx = Inr r \<Longrightarrow>
     (r = idx \<and> list_all (\<lambda>c. \<forall>d. calculate_distance h sq v c = Inr d \<longrightarrow> d \<le> md) cs)
     \<or> (int i \<le> r \<and> r < int i + int (length cs))"
proof (induction cs arbitrary: i md idx)
  case Nil
  then show ?case by simp
next
  case (Cons c cs)
  from Cons.prems obtain d where d: "calculate_distance h sq v c = Inr d"
    by (auto split: sum.splits)
  show ?case
  proof (cases "d > md")
    case True
    with Cons.prems d have "furthest_scan h sq v cs (Suc i) d (int i) = Inr r" by simp
    from Cons.IH [OF this] show ?thesis by (elim disjE conjE) simp_all
  next
    case False
    with Cons.prems d have "furthest_scan h sq v cs (Suc i) md idx = Inr r" by simp
    from Cons.IH [OF this] False d show ?thesis by (elim disjE conjE) simp_all
  qed
qed

text \<open>Distances that are sums of squares are not negative: the metric L2, and any metric
  once a trained quantizer replaces it.\<close>

lemma sum_list_squares_nonneg: "0 \<le> (\<Sum>(x, y)\<leftarrow>xs. (x - y) * (x - y) :: real)"
proof (rule sum_list_nonneg)
  fix z assume "z \<in> set (map (\<lambda>(x, y). (x - y) * (x - y)) xs)"
  then obtain x y :: real where "z = (x - y) * (x - y)" by auto
  then show "0 \<le> z" by simp
qed

lemma l2_distance_nonneg:
  assumes "calculate_distance h sq v c = Inr d"
    and "distance_metric h = L2 \<or> (\<exists>q. sq = Some q \<and> is_trained q)"
  shows "0 \<le> d"
proof (cases "\<exists>q. sq = Some q \<and> is_trained q")
  case True
  then obtain q where q: "sq = Some q" "is_trained q" by blast
  with assms(1) obtain enc where "sq_calculate_distance q v enc = Inr d"
    by (auto simp: calculate_distance_def bind_err_Inr_iff)
  then obtain dec where
    "d = (\<Sum>i\<leftarrow>[0..<original_dim q]. (v ! i - dec ! i)\<^sup>2)"
    by (auto simp: sq_calculate_distance_def split: sum.splits if_splits)
  moreover have "0 \<le> (\<Sum>i\<leftarrow>[0..<original_dim q]. (v ! i - dec ! i)\<^sup>2)"
    by (rule sum_list_nonneg) auto
  ultimately show ?thesis by simp
next
  case False
  with assms(2) have l2: "distance_metric h = L2" by simp
  from False assms(1) obtain b where "calculate_distance_vec (distance_metric h) v b = Inr d"
    by (auto simp: calculate_distance_def bind_err_Inr_iff split: option.splits if_splits)
  with l2 show ?thesis
    by (auto simp: calculate_distance_vec_def calculate_l2_distance_def sum_list_squares_nonneg
        split: if_splits)
qed

lemma calculate_distance_cong:
  "vector_storage h' = vector_storage h \<Longrightarrow> distance_metric h' = distance_metric h \<Longrightarrow>
     calculate_distance h' sq v c = calculate_distance h sq v c"
  by (simp add: calculate_distance_def split: option.splits)

lemma furthest_scan_cong:
  "vector_storage h' = vector_storage h \<Longrightarrow> distance_metric h' = distance_metric h \<Longrightarrow>
     furthest_scan h' sq v cs i md idx = furthest_scan h sq v cs i md idx"
  by (induction cs arbitrary: i md idx)
    (simp_all add: calculate_distance_cong [of h' h] split: sum.splits)


lemma modify_neighbors_Inr:
  assumes "modify_neighbors h i l f = Inr h'"
  shows "i < length (nodes h)" and "l < length (neighbors (nodes h ! i))"
    and "h' = h\<lparr>nodes := (nodes h)[i := (nodes h ! i)\<lparr>neighbors :=
            (neighbors (nodes h ! i))[l := f (neighbors (nodes h ! i) ! l)]\<rparr>]\<rparr>"
  using assms
  by (simp_all add: modify_neighbors_def vec_at_def split: if_splits)

lemma modify_neighbors_at:
  assumes "modify_neighbors h i l f = Inr h'"
  shows "vector_storage h' = vector_storage h" and "distance_metric h' = distance_metric h"
    and "M h' = M h"
    and "neighbors_at (nodes h') j k =
      (if size_t_of_int j = i \<and> size_t_of_int k = l
       then (case neighbors_at (nodes h) j k of Inl e \<Rightarrow> Inl e | Inr ns \<Rightarrow> Inr (f ns))
       else neighbors_at (nodes h) j k)"
proof -
  note mn = modify_neighbors_Inr [OF assms]
  from mn(3) show "vector_storage h' = vector_storage h" "distance_metric h' = distance_metric h"
    "M h' = M h"
    by simp_all
  show "neighbors_at (nodes h') j k =
      (if size_t_of_int j = i \<and> size_t_of_int k = l
       then (case neighbors_at (nodes h) j k of Inl e \<Rightarrow> Inl e | Inr ns \<Rightarrow> Inr (f ns))
       else neighbors_at (nodes h) j k)"
  proof (cases "size_t_of_int j = i")
    case True
    with mn(1,2) show ?thesis
      by (simp add: mn(3) neighbors_at_def vec_at_def nth_list_update)
  next
    case False
    then show ?thesis
      by (simp add: mn(3) neighbors_at_def vec_at_def nth_list_update)
  qed
qed

lemma connect_Inr:
  assumes "connect h sq new_id layer nb = Inr h'"
  obtains h1 h2 l where
    "modify_neighbors h new_id (size_t_of_int layer) (\<lambda>l. l @ [nb]) = Inr h1"
    "modify_neighbors h1 (size_t_of_int nb) (size_t_of_int layer)
        (\<lambda>l. l @ [int_of_uint32 new_id]) = Inr h2"
    "neighbors_at (nodes h2) nb layer = Inr l"
    "if length l > size_t_of_int (M h2)
     then \<exists>v r. furthest_scan h2 sq v l 0 (- 1) (- 1) = Inr r
            \<and> (if r \<noteq> - 1
                then modify_neighbors h2 (size_t_of_int nb) (size_t_of_int layer) (erase_at r) = Inr h'
                else h' = h2)
     else h' = h2"
proof -
  obtain h1 where 1: "modify_neighbors h new_id (size_t_of_int layer) (\<lambda>l. l @ [nb]) = Inr h1"
    using assms
    by (cases "modify_neighbors h new_id (size_t_of_int layer) (\<lambda>l. l @ [nb])")
      (simp_all add: connect_def)
  obtain h2 where 2: "modify_neighbors h1 (size_t_of_int nb) (size_t_of_int layer)
        (\<lambda>l. l @ [int_of_uint32 new_id]) = Inr h2"
    using assms 1
    by (cases "modify_neighbors h1 (size_t_of_int nb) (size_t_of_int layer)
        (\<lambda>l. l @ [int_of_uint32 new_id])") (simp_all add: connect_def)
  obtain l where 3: "neighbors_at (nodes h2) nb layer = Inr l"
    using assms 1 2
    by (cases "neighbors_at (nodes h2) nb layer") (simp_all add: connect_def)
  show thesis
  proof (cases "length l > size_t_of_int (M h2)")
    case False
    with assms 1 2 3 have "h' = h2" by (simp add: connect_def)
    with False show thesis by (intro that [OF 1 2 3]) simp
  next
    case True
    with assms 1 2 3 obtain v where
      4: "bind_err (furthest_scan h2 sq v l 0 (- 1) (- 1)) (\<lambda>r.
            if r \<noteq> - 1
            then modify_neighbors h2 (size_t_of_int nb) (size_t_of_int layer) (erase_at r)
            else Inr h2) = Inr h'"
      by (cases "get_vector (vector_storage h2) (size_t_of_int nb)") (simp_all add: connect_def)
    then obtain r where 5: "furthest_scan h2 sq v l 0 (- 1) (- 1) = Inr r"
      and 6: "(if r \<noteq> - 1
            then modify_neighbors h2 (size_t_of_int nb) (size_t_of_int layer) (erase_at r)
            else Inr h2) = Inr h'"
      by (cases "furthest_scan h2 sq v l 0 (- 1) (- 1)") simp_all
    from 6 have 7: "if r \<noteq> - 1
        then modify_neighbors h2 (size_t_of_int nb) (size_t_of_int layer) (erase_at r) = Inr h'
        else h' = h2"
      by (simp split: if_splits)
    from 5 7 have "\<exists>v r. furthest_scan h2 sq v l 0 (- 1) (- 1) = Inr r
            \<and> (if r \<noteq> - 1
                then modify_neighbors h2 (size_t_of_int nb) (size_t_of_int layer) (erase_at r) = Inr h'
                else h' = h2)"
      by blast
    with True show thesis by (intro that [OF 1 2 3]) simp
  qed
qed

subsection \<open>A query of a well-formed index returns\<close>

lemma layer_ok_index:
  "layer_ok h l i \<Longrightarrow> length (nodes h) < 2 ^ 31 \<Longrightarrow>
     size_t_of_int i = nat i \<and> nat i < length (nodes h)"
proof -
  assume "layer_ok h l i" and "length (nodes h) < 2 ^ 31"
  then have "0 \<le> i" "nat i < length (nodes h)" "length (nodes h) < 2 ^ 31"
    by (simp_all add: layer_ok_def)
  moreover from this have "i < 2 ^ 31"
    by simp
  ultimately show ?thesis
    by (simp add: size_t_of_int_small)
qed

lemma layer_ok_lower: "layer_ok h l i \<Longrightarrow> 0 \<le> l' \<Longrightarrow> l' \<le> l \<Longrightarrow> layer_ok h l' i"
  by (auto simp add: layer_ok_def)

lemma calculate_distance_vec_defined:
  assumes "length a \<le> length b" and "valid_metric metric"
  shows "\<exists>d. calculate_distance_vec metric a b = Inr d"
proof (cases metric)
  case (InvalidMetric n)
  with assms(2) show ?thesis
    by simp
qed (use assms(1) in \<open>simp_all add: calculate_distance_vec_def calculate_l2_distance_def
      calculate_cosine_distance_def calculate_inner_product_distance_def Let_def\<close>)

lemma calculate_distance_defined:
  assumes dd: "distances_defined h sq query" and small: "length (nodes h) < 2 ^ 31"
    and i: "0 \<le> i" "nat i < length (nodes h)"
  shows "\<exists>d. calculate_distance h sq query i = Inr d"
proof -
  let ?vs = "vector_storage h"
  from i small have "i < 2 ^ 31"
    by simp
  with i have idx: "size_t_of_int i = nat i"
    by (simp add: size_t_of_int_small)
  from dd have lv: "length (vectors ?vs) = length (nodes h)"
    and lq: "list_all (\<lambda>v. length query \<le> length v) (vectors ?vs)"
    and mt: "valid_metric (distance_metric h)"
    by (simp_all add: distances_defined_def Let_def)
  from i lv lq have "length query \<le> length (vectors ?vs ! nat i)"
    by (simp add: list_all_length)
  from calculate_distance_vec_defined [OF this mt] i lv idx
  have plain: "\<exists>d. bind_err (get_vector ?vs (size_t_of_int i))
        (calculate_distance_vec (distance_metric h) query) = Inr d"
    by (simp add: get_vector_def vec_at_def)
  show ?thesis
  proof (cases sq)
    case None
    with plain show ?thesis by (simp add: calculate_distance_def)
  next
    case (Some q)
    show ?thesis
    proof (cases "is_trained q")
      case False
      with Some plain show ?thesis by (simp add: calculate_distance_def)
    next
      case True
      with dd Some have q: "mins q \<noteq> []" "maxs q \<noteq> []" "original_dim q \<le> length (mins q)"
        "original_dim q \<le> length (maxs q)" "original_dim q \<le> length query"
        and le: "length (encoded_vectors ?vs) = length (nodes h)"
        and enc: "list_all (\<lambda>e. original_dim q \<le> length e) (encoded_vectors ?vs)"
        by (simp_all add: distances_defined_def Let_def is_trained_def)
      from i le enc have "original_dim q \<le> length (encoded_vectors ?vs ! nat i)"
        by (simp add: list_all_length)
      with q have "\<exists>d. sq_calculate_distance q query (encoded_vectors ?vs ! nat i) = Inr d"
        by (simp add: sq_calculate_distance_def decode_def)
      with True Some i le idx show ?thesis
        by (simp add: calculate_distance_def get_encoded_vector_def vec_at_def)
    qed
  qed
qed

lemma passes_filter_defined:
  "length (metadata (vector_storage h)) = length (nodes h) \<Longrightarrow> length (nodes h) < 2 ^ 31 \<Longrightarrow>
     0 \<le> i \<Longrightarrow> nat i < length (nodes h) \<Longrightarrow> \<exists>b. passes_filter h flt i = Inr b"
proof -
  assume a: "length (metadata (vector_storage h)) = length (nodes h)" "length (nodes h) < 2 ^ 31"
    "0 \<le> i" "nat i < length (nodes h)"
  then have "i < 2 ^ 31"
    by simp
  with a show ?thesis
    by (cases flt) (auto simp add: passes_filter_def get_metadata_def vec_at_def size_t_of_int_small)
qed

lemma admits_defined: "1 \<le> ef \<Longrightarrow> ef < 2 ^ 31 \<Longrightarrow> \<exists>b. admits ef d rq = Inr b"
  by (cases rq) (auto simp add: admits_def top_max_def size_t_of_int_small)

lemma stop_search_defined: "1 \<le> ef \<Longrightarrow> ef < 2 ^ 31 \<Longrightarrow> \<exists>b. stop_search ef c rq = Inr b"
  by (cases rq) (auto simp add: stop_search_def top_max_def size_t_of_int_small)

lemma neighbors_at_defined:
  assumes adj: "list_all (\<lambda>node.
          length (neighbors node) < 2 ^ 31
          \<and> list_all (\<lambda>l. list_all (layer_ok h (int l)) (neighbors node ! l))
               [0..<length (neighbors node)]) (nodes h)"
    and small: "length (nodes h) < 2 ^ 31" and ok: "layer_ok h l i"
  shows "\<exists>nbrs. neighbors_at (nodes h) i l = Inr nbrs \<and> list_all (layer_ok h l) nbrs"
proof -
  let ?n = "nodes h ! nat i"
  from layer_ok_index [OF ok small] have idx: "size_t_of_int i = nat i" "nat i < length (nodes h)"
    by simp_all
  from ok have l: "0 \<le> l" "nat l < length (neighbors ?n)"
    by (simp_all add: layer_ok_def)
  from adj idx(2) have len: "length (neighbors ?n) < 2 ^ 31"
    and all: "list_all (\<lambda>l. list_all (layer_ok h (int l)) (neighbors ?n ! l))
               [0..<length (neighbors ?n)]"
    by (simp_all add: list_all_length)
  from l len have "l < 2 ^ 31"
    by simp
  with l have lidx: "size_t_of_int l = nat l"
    by (simp add: size_t_of_int_small)
  from all have "\<forall>k<length (neighbors ?n). list_all (layer_ok h (int k)) (neighbors ?n ! k)"
    by (simp add: list_all_iff)
  with l(2) have "list_all (layer_ok h (int (nat l))) (neighbors ?n ! nat l)"
    by blast
  with l(1) have "list_all (layer_ok h l) (neighbors ?n ! nat l)"
    by simp
  with idx lidx l show ?thesis
    by (simp add: neighbors_at_def vec_at_def)
qed

lemma list_all_insort: "list_all P (insort x xs) \<longleftrightarrow> P x \<and> list_all P xs"
  by (simp add: list_all_iff set_insort_key)

lemma list_all_trim: "list_all P xs \<Longrightarrow> list_all P (trim ef xs)"
  by (auto simp add: trim_def list_all_iff dest: in_set_takeD)

lemma searchableD:
  assumes "searchable h sq query"
  shows "length (nodes h) < 2 ^ 31"
    and "length (metadata (vector_storage h)) = length (nodes h)"
    and "distances_defined h sq query"
    and "list_all (\<lambda>node.
          length (neighbors node) < 2 ^ 31
          \<and> list_all (\<lambda>l. list_all (layer_ok h (int l)) (neighbors node ! l))
               [0..<length (neighbors node)]) (nodes h)"
    and "0 < efSearch h" and "efSearch h < 2 ^ 31"
  using assms by (simp_all add: searchable_def)

lemma visit_neighbors_defined:
  assumes wf: "searchable h sq query" and ef: "1 \<le> ef" "ef < 2 ^ 31"
  shows "list_all (layer_ok h l) nbrs \<Longrightarrow> queues_ok h l s \<Longrightarrow>
    \<exists>s'. visit_neighbors h sq query ef flt nbrs s = Inr s' \<and> queues_ok h l s'"
proof (induction nbrs arbitrary: s)
  case Nil
  then show ?case by simp
next
  case (Cons n rest)
  let ?s1 = "s\<lparr>visited_nodes := insert n (visited_nodes s)\<rparr>"
  from Cons.prems have n: "layer_ok h l n" and rest: "list_all (layer_ok h l) rest"
    by simp_all
  from Cons.prems(2) have s1: "queues_ok h l ?s1"
    by (simp add: queues_ok_def)
  from n have i: "0 \<le> n" "nat n < length (nodes h)"
    by (simp_all add: layer_ok_def)
  from calculate_distance_defined [OF searchableD(3) [OF wf] searchableD(1) [OF wf] i]
  obtain d where d: "calculate_distance h sq query n = Inr d" ..
  from admits_defined [OF ef] obtain b where b: "admits ef d (result_queue ?s1) = Inr b" ..
  from passes_filter_defined [OF searchableD(2) [OF wf] searchableD(1) [OF wf] i]
  obtain ok where ok: "passes_filter h flt n = Inr ok" ..
  let ?s2 = "?s1\<lparr>candidate_queue := insort (d, n) (candidate_queue ?s1),
                 result_queue := trim ef (if ok then insort (d, n) (result_queue ?s1)
                                          else result_queue ?s1)\<rparr>"
  from s1 n have s2: "queues_ok h l ?s2"
    by (simp add: queues_ok_def list_all_insort list_all_trim)
  show ?case
  proof (cases "n \<in> visited_nodes s")
    case True
    with Cons.IH [OF rest Cons.prems(2)] show ?thesis by simp
  next
    case unvisited: False
    show ?thesis
    proof (cases "uint32_of_int n \<in> deleted_nodes h")
      case True
      with unvisited Cons.IH [OF rest s1] show ?thesis by (simp add: Let_def)
    next
      case live: False
      show ?thesis
      proof (cases b)
        case False
        with unvisited live d b Cons.IH [OF rest s1] show ?thesis by (simp add: Let_def)
      next
        case True
        with unvisited live d b ok Cons.IH [OF rest s2] show ?thesis by (simp add: Let_def)
      qed
    qed
  qed
qed

lemma search_loop_defined:
  "searchable h sq query \<Longrightarrow> 1 \<le> ef \<Longrightarrow> ef < 2 ^ 31 \<Longrightarrow> queues_ok h l s \<Longrightarrow>
    \<exists>s'. search_loop h sq query ef l flt s = Inr s' \<and> queues_ok h l s'"
proof (induction h sq query ef l flt s rule: search_loop.induct)
  case (1 h sq query ef layer_level flt s)
  note wf = "1.prems"(1) and ef = "1.prems"(2,3)
  show ?case
  proof (cases "candidate_queue s")
    case Nil
    with "1.prems" show ?thesis by (simp add: search_loop_empty_queue)
  next
    case (Cons current popped)
    from stop_search_defined [OF ef, of current "result_queue s"] obtain stop
      where st: "stop_search ef current (result_queue s) = Inr stop" ..
    from "1.prems"(4) Cons have popped: "queues_ok h layer_level (s\<lparr>candidate_queue := popped\<rparr>)"
      and cur: "layer_ok h layer_level (snd current)"
      by (simp_all add: queues_ok_def)
    show ?thesis
    proof (cases stop)
      case True
      with st Cons popped show ?thesis by (simp add: search_loop.simps)
    next
      case False
      then have sf: "stop = False" by simp
      from neighbors_at_defined [OF searchableD(4) [OF wf] searchableD(1) [OF wf] cur]
      obtain nbrs where nb: "neighbors_at (nodes h) (snd current) layer_level = Inr nbrs"
        and nbrs: "list_all (layer_ok h layer_level) nbrs"
        by blast
      from visit_neighbors_defined [OF wf ef nbrs popped, of flt]
      obtain u where vn: "visit_neighbors h sq query ef flt nbrs (s\<lparr>candidate_queue := popped\<rparr>) = Inr u"
        and u: "queues_ok h layer_level u"
        by blast
      from "1.IH" [OF Cons st sf nb vn wf ef u] False st Cons nb vn show ?thesis
        by (simp add: search_loop.simps)
    qed
  qed
qed

lemma search_layer_defined:
  assumes wf: "searchable h sq query" and ef: "1 \<le> ef" "ef < 2 ^ 31" and ep: "layer_ok h l ep"
  shows "\<exists>ids. search_layer h sq query ep ef l flt = Inr ids \<and> list_all (layer_ok h l) ids"
proof -
  from ep have i: "0 \<le> ep" "nat ep < length (nodes h)"
    by (simp_all add: layer_ok_def)
  from calculate_distance_defined [OF searchableD(3) [OF wf] searchableD(1) [OF wf] i]
  obtain d where d: "calculate_distance h sq query ep = Inr d" ..
  from passes_filter_defined [OF searchableD(2) [OF wf] searchableD(1) [OF wf] i]
  obtain ok where ok: "passes_filter h flt ep = Inr ok" ..
  let ?s0 = "if uint32_of_int ep \<notin> deleted_nodes h
    then \<lparr>candidate_queue = [(d, ep)], result_queue = (if ok then [(d, ep)] else []),
           visited_nodes = {ep}\<rparr>
    else \<lparr>candidate_queue = [], result_queue = [], visited_nodes = {ep}\<rparr>"
  from ep have "queues_ok h l ?s0"
    by (simp add: queues_ok_def)
  from search_loop_defined [OF wf ef this, of flt]
  obtain s where s: "search_loop h sq query ef l flt ?s0 = Inr s" and q: "queues_ok h l s"
    by blast
  from q have "list_all (layer_ok h l) (map snd (result_queue s))"
    by (simp add: queues_ok_def list_all_iff)
  with d ok s show ?thesis
    by (auto simp add: search_layer_def split: if_splits)
qed

lemma knn_descend_defined:
  assumes wf: "searchable h sq query"
  shows "sorted_wrt (>) ls \<Longrightarrow> list_all (\<lambda>l. layer_ok h l cur) (0 # ls) \<Longrightarrow>
    \<exists>c. knn_descend h sq query flt ls cur = Inr c \<and> layer_ok h 0 c"
proof (induction ls arbitrary: cur)
  case Nil
  then show ?case by simp
next
  case (Cons l ls)
  from Cons.prems have l: "layer_ok h l cur" and cur: "list_all (\<lambda>l. layer_ok h l cur) (0 # ls)"
    and lower: "\<forall>l' \<in> set ls. l' < l" and sorted: "sorted_wrt (>) ls"
    by auto
  from search_layer_defined [OF wf _ _ l, of 1 flt]
  obtain ids where ids: "search_layer h sq query cur 1 l flt = Inr ids"
    and ok: "list_all (layer_ok h l) ids"
    by auto
  show ?case
  proof (cases ids)
    case Nil
    with ids Cons.IH [OF sorted cur] show ?thesis by simp
  next
    case (Cons c cs)
    with ok have c: "layer_ok h l c" by simp
    from cur lower have "list_all (\<lambda>l'. 0 \<le> l' \<and> l' \<le> l) (0 # ls)"
      using l by (auto simp add: list_all_iff layer_ok_def)
    with c have "list_all (\<lambda>l. layer_ok h l c) (0 # ls)"
      by (auto simp add: list_all_iff intro: layer_ok_lower)
    from Cons.IH [OF sorted this] ids Cons show ?thesis by simp
  qed
qed

lemma layers_down_sorted: "sorted_wrt (>) (layers_down hi lo)"
  by (simp add: layers_down_def sorted_wrt_rev)

lemma make_result_defined:
  assumes wf: "searchable h sq query" and i: "layer_ok h 0 i"
  shows "\<exists>r. make_result h sq query inc i = Inr r"
proof -
  from i have r: "0 \<le> i" "nat i < length (nodes h)"
    by (simp_all add: layer_ok_def)
  from calculate_distance_defined [OF searchableD(3) [OF wf] searchableD(1) [OF wf] r]
  obtain d where d: "calculate_distance h sq query i = Inr d" ..
  from searchableD(3) [OF wf] have "length (vectors (vector_storage h)) = length (nodes h)"
    by (simp add: distances_defined_def Let_def)
  with d r layer_ok_index [OF i searchableD(1) [OF wf]] searchableD(2) [OF wf] show ?thesis
    by (simp add: make_result_def get_metadata_def get_vector_def vec_at_def)
qed

lemma collect_results_defined:
  assumes wf: "searchable h sq query"
  shows "list_all (layer_ok h 0) ids \<Longrightarrow> \<exists>rs. collect_results h sq query k inc ids acc = Inr rs"
proof (induction ids arbitrary: acc)
  case Nil
  then show ?case by simp
next
  case (Cons i ids)
  then have i: "layer_ok h 0 i" and ids: "list_all (layer_ok h 0) ids"
    by simp_all
  from make_result_defined [OF wf i] obtain r where "make_result h sq query inc i = Inr r" ..
  with Cons.IH [OF ids] show ?case
    by simp
qed

lemma k_nearest_neighbors_defined:
  assumes wf: "searchable h sq query" and k: "k < 2 ^ 31"
  shows "\<exists>rs. k_nearest_neighbors h sq query k flt inc = Inr rs"
proof (cases "entry_point_id h = - 1")
  case True
  then show ?thesis by (simp add: k_nearest_neighbors_def)
next
  case False
  let ?e = "entry_point_id h"
  let ?ep = "nodes h ! nat ?e"
  from wf False have e0: "layer_ok h 0 ?e" and top: "layer_ok h (max_layer ?ep) ?e"
    by (simp_all add: searchable_def)
  from layer_ok_index [OF e0 searchableD(1) [OF wf]]
  have ep: "vec_at (nodes h) (size_t_of_int ?e) = Inr ?ep"
    by (simp add: vec_at_def)
  have "list_all (\<lambda>l. layer_ok h l ?e) (0 # layers_down (max_layer ?ep) 0)"
    using e0 top by (auto simp add: list_all_iff layers_down_def intro: layer_ok_lower)
  from knn_descend_defined [OF wf layers_down_sorted this, of flt]
  obtain c where c: "knn_descend h sq query flt (layers_down (max_layer ?ep) 0) ?e = Inr c"
    and c0: "layer_ok h 0 c"
    by blast
  from searchableD(5,6) [OF wf] k have "1 \<le> max k (efSearch h)" "max k (efSearch h) < 2 ^ 31"
    by simp_all
  from search_layer_defined [OF wf this c0, of flt]
  obtain ids where ids: "search_layer h sq query c (max k (efSearch h)) 0 flt = Inr ids"
    and ok: "list_all (layer_ok h 0) ids"
    by blast
  from collect_results_defined [OF wf ok, of k inc "[]"] False ep c ids show ?thesis
    by (simp add: k_nearest_neighbors_def)
qed

section \<open>The claims\<close>

subsection \<open>C1: a query returns at most k results, none of them tombstoned\<close>

text \<open>
  Claim C1: for every index state, query vector, filter and count \<open>k\<close> (an \<^verbatim>\<open>int\<close> that is
  not negative), no result that \<^verbatim>\<open>k_nearest_neighbors\<close> returns has an id in the deleted
  set, and it returns at most \<open>k\<close> results. The only other outcome is one of the undefined
  behaviours of a search.
\<close>

theorem knn_results_bounded_and_live:
  "case k_nearest_neighbors h sq query k flt inc of
     Inl e \<Rightarrow> search_error e
   | Inr rs \<Rightarrow>
       (\<forall>r \<in> set rs. uint32_of_int (qr_id r) \<notin> deleted_nodes h) \<and>
       (0 \<le> k \<longrightarrow> int (length rs) \<le> k)"
proof (cases "k_nearest_neighbors h sq query k flt inc")
  case (Inl e)
  then show ?thesis by (simp add: k_nearest_neighbors_error)
next
  case (Inr rs)
  have "length rs \<le> size_t_of_int k \<and> (\<forall>r \<in> set rs. uint32_of_int (qr_id r) \<notin> deleted_nodes h)"
  proof (cases "entry_point_id h = - 1")
    case True
    with Inr show ?thesis by (simp add: k_nearest_neighbors_def)
  next
    case False
    with Inr obtain ids where "collect_results h sq query k inc ids [] = Inr rs"
      by (auto simp: k_nearest_neighbors_def split: sum.splits)
    from collect_results_spec [OF this] show ?thesis by simp
  qed
  moreover have "0 \<le> k \<Longrightarrow> int (size_t_of_int k) \<le> k"
    by (simp add: size_t_of_int_def zmod_le_nonneg_dividend)
  ultimately show ?thesis using Inr by force
qed

text \<open>
  Claim C1, witness: the query of \<^verbatim>\<open>test_soft_delete\<close> with \<open>k = 3\<close> after id 1 is
  deleted returns the ids 0 and 2.
\<close>

theorem knn_results_bounded_and_live_witness:
  "k_nearest_neighbors soft_delete_index None [11 / 10, 11 / 10] 3 None {ID}
     = Inr [\<lparr>qr_id = 0, qr_distance = None, qr_metadata = fmempty, qr_vector = []\<rparr>,
            \<lparr>qr_id = 2, qr_distance = None, qr_metadata = fmempty, qr_vector = []\<rparr>]
   \<and> uint32_of_int 0 \<notin> deleted_nodes soft_delete_index
   \<and> uint32_of_int 2 \<notin> deleted_nodes soft_delete_index
   \<and> (0 :: int) \<le> 3
   \<and> int (length [\<lparr>qr_id = 0, qr_distance = None, qr_metadata = fmempty, qr_vector = []\<rparr>,
                   \<lparr>qr_id = 2, qr_distance = None, qr_metadata = fmempty,
                      qr_vector = [] :: real list\<rparr>]) \<le> 3"
proof -
  have run: "k_nearest_neighbors soft_delete_index None [11 / 10, 11 / 10] 3 None {ID}
     = Inr [\<lparr>qr_id = 0, qr_distance = None, qr_metadata = fmempty, qr_vector = []\<rparr>,
            \<lparr>qr_id = 2, qr_distance = None, qr_metadata = fmempty, qr_vector = []\<rparr>]"
    unfolding soft_delete_index_eq by (simp add: eval_defs)
  from knn_results_bounded_and_live [where h = soft_delete_index and sq = None
      and query = "[11 / 10, 11 / 10]" and k = 3 and flt = None and inc = "{ID}"]
    run
  show ?thesis by simp
qed

subsection \<open>C2: a tombstoned entry point\<close>

text \<open>
  Claim C2, as stated, fails: in \<open>reloaded_index\<close> the live node 0 is a neighbour at
  layer 0 of the tombstoned node 1, and \<^verbatim>\<open>search_layer\<close> entered at node 1 returns
  nothing, although the query is the vector of node 0.
\<close>

theorem search_layer_tombstoned_entry_counterexample:
  "uint32_of_int 1 \<in> deleted_nodes reloaded_index
   \<and> uint32_of_int 0 \<notin> deleted_nodes reloaded_index
   \<and> neighbors_at (nodes reloaded_index) 1 0 = Inr [0]
   \<and> search_layer reloaded_index None [1, 1] 1 50 0 None = Inr []"
  by (simp add: reloaded_index_def eval_defs)

text \<open>
  Claim C2, amended: when the given entry point is tombstoned, \<^verbatim>\<open>search_layer\<close> computes
  the distance to it, pushes nothing and returns the empty list; the neighbours of the
  entry point are not examined.
\<close>

theorem search_layer_tombstoned_entry:
  "uint32_of_int ep \<in> deleted_nodes h \<Longrightarrow>
     search_layer h sq query ep ef layer flt =
       (case calculate_distance h sq query ep of Inl e \<Rightarrow> Inl e | Inr d \<Rightarrow> Inr [])"
  by (simp add: search_layer_def search_loop_empty_queue split: sum.splits)

text \<open>Claim C2, witness: the search of layer 0 of \<open>reloaded_index\<close> from node 1.\<close>

theorem search_layer_tombstoned_entry_witness:
  "uint32_of_int 1 \<in> deleted_nodes reloaded_index
   \<and> search_layer reloaded_index None [11 / 10, 11 / 10] 1 50 0 None = Inr []"
  using search_layer_tombstoned_entry [of 1 reloaded_index None "[11 / 10, 11 / 10]" 50 0 None]
  by (simp add: reloaded_index_def eval_defs)

subsection \<open>C3: the entry point after insert, delete, save and load\<close>

lemma saved_db_saved:
  "Database_save saved_db FULL no_files = (Inr (no_files(''db'' \<mapsto> saved_file)), saved_db)"
  by (simp add: Database_save_def saved_db_contents) (simp add: saved_db_eq)

lemma reloaded_query:
  "Database_query (saved_db\<lparr>db_read_only := True, db_hnsw := reloaded_index\<rparr>)
     [11 / 10, 11 / 10] 3 None {ID} = Inr []"
  unfolding saved_db_eq
  by (simp add: Database_query_def reloaded_index_def eval_defs)

text \<open>
  Claim C3 holds of the code only until \<^verbatim>\<open>load\<close>: the constructor \<^verbatim>\<open>load\<close> uses takes
  the id of the last node as the entry point. The database \<open>saved_db\<close> has the live node 0
  of \<open>max_layer\<close> 1 as its entry point, as the invariant \<open>entry_point_ok\<close> asks; after \<^verbatim>\<open>save\<close> and \<^verbatim>\<open>load\<close> the entry point is
  node 1, which is tombstoned and has \<open>max_layer\<close> 0, and the query that found node 0
  before returns nothing.
\<close>

theorem load_entry_point_is_last_node:
  "entry_point_id (db_hnsw saved_db) = 0
   \<and> entry_point_ok (db_hnsw saved_db)
   \<and> Database_save saved_db FULL no_files = (Inr (no_files(''db'' \<mapsto> saved_file)), saved_db)
   \<and> Database_new (no_files(''db'' \<mapsto> saved_file)) ''db'' 2 16 200 50 L2 True 0 False
       = Inr (saved_db\<lparr>db_read_only := True, db_hnsw := reloaded_index\<rparr>)
   \<and> entry_point_id reloaded_index = 1
   \<and> 1 \<in> deleted_nodes reloaded_index
   \<and> 0 \<notin> deleted_nodes reloaded_index
   \<and> map max_layer (nodes reloaded_index) = [1, 0]
   \<and> \<not> entry_point_ok reloaded_index
   \<and> Database_query saved_db [11 / 10, 11 / 10] 3 None {ID}
       = Inr [\<lparr>qr_id = 0, qr_distance = None, qr_metadata = fmempty, qr_vector = []\<rparr>]
   \<and> Database_query (saved_db\<lparr>db_read_only := True, db_hnsw := reloaded_index\<rparr>)
        [11 / 10, 11 / 10] 3 None {ID} = Inr []"
proof -
  have "entry_point_id (db_hnsw saved_db) = 0"
    by (simp add: saved_db_eq)
  moreover have "entry_point_ok (db_hnsw saved_db)"
    by (simp add: saved_db_eq entry_point_ok_def live_layers_def)
  moreover have "entry_point_id reloaded_index = 1 \<and> 1 \<in> deleted_nodes reloaded_index
      \<and> 0 \<notin> deleted_nodes reloaded_index \<and> map max_layer (nodes reloaded_index) = [1, 0]"
    by (simp add: reloaded_index_def)
  moreover have "\<not> entry_point_ok reloaded_index"
    by (simp add: reloaded_index_def entry_point_ok_def live_layers_def)
  moreover have "Database_query saved_db [11 / 10, 11 / 10] 3 None {ID}
       = Inr [\<lparr>qr_id = 0, qr_distance = None, qr_metadata = fmempty, qr_vector = []\<rparr>]"
    unfolding saved_db_eq by (simp add: Database_query_def eval_defs)
  ultimately show ?thesis
    using saved_db_saved saved_file_loaded reloaded_query by simp
qed

text \<open>
  Insertion and the deletion of an existing id do maintain the invariant the claim
  describes; the defect is confined to \<^verbatim>\<open>load\<close>.
\<close>

lemma mark_deleted_keeps_entry_point:
  assumes ids: "ids_ok h" and ok: "entry_point_ok h" and i: "i < length (nodes h)"
  shows "ids_ok (mark_deleted h i) \<and> entry_point_ok (mark_deleted h i)"
proof
  from ids i show ids': "ids_ok (mark_deleted h i)"
    by (simp add: mark_deleted_def ids_ok_def Let_def)
  let ?D = "insert i (deleted_nodes h)"
  from ids have small: "length (nodes h) < 2 ^ 31" by (simp add: ids_ok_def)
  show "entry_point_ok (mark_deleted h i)"
  proof (cases "uint32_of_int (entry_point_id h) = i")
    case False
    then have md: "mark_deleted h i = h\<lparr>deleted_nodes := ?D\<rparr>"
      by (simp add: mark_deleted_def Let_def)
    show ?thesis
    proof (rule entry_point_okI)
      fix n assume "n \<in> set (nodes (mark_deleted h i))"
        and "node_id n \<notin> deleted_nodes (mark_deleted h i)"
      with md have n: "n \<in> set (nodes h)" "node_id n \<notin> deleted_nodes h" by simp_all
      note e = entry_point_okD [OF ok n]
      from ids e(2) have "node_id (nodes h ! nat (entry_point_id h)) = nat (entry_point_id h)"
        by (simp add: ids_ok_def list_all_iff)
      moreover from e(1,2) small have "uint32_of_int (entry_point_id h) = nat (entry_point_id h)"
        by (intro uint32_of_int_small) simp_all
      ultimately have "node_id (nodes h ! nat (entry_point_id h)) \<noteq> i"
        using False by simp
      with e md show "0 \<le> entry_point_id (mark_deleted h i)
          \<and> nat (entry_point_id (mark_deleted h i)) < length (nodes (mark_deleted h i))
          \<and> node_id (nodes (mark_deleted h i) ! nat (entry_point_id (mark_deleted h i)))
              \<notin> deleted_nodes (mark_deleted h i)
          \<and> max_layer n \<le> max_layer (nodes (mark_deleted h i) ! nat (entry_point_id (mark_deleted h i)))"
        by simp
    next
      assume all: "\<And>n. n \<in> set (nodes (mark_deleted h i)) \<Longrightarrow>
          node_id n \<in> deleted_nodes (mark_deleted h i)"
      show "entry_point_id (mark_deleted h i) = - 1"
      proof (rule ccontr)
        assume ne: "entry_point_id (mark_deleted h i) \<noteq> - 1"
        with md have "entry_point_id h \<noteq> - 1" by simp
        with ok obtain n where n: "n \<in> set (nodes h)" "node_id n \<notin> deleted_nodes h"
          by (auto simp: entry_point_ok_def live_layers_def filter_empty_conv split: if_splits)
        note e = entry_point_okD [OF ok n]
        let ?e = "nodes h ! nat (entry_point_id h)"
        from e(2) have "?e \<in> set (nodes h)" by simp
        with all md have "node_id ?e \<in> ?D" by simp
        with e(3) have "node_id ?e = i" by simp
        moreover from ids e(2) have "node_id ?e = nat (entry_point_id h)"
          by (simp add: ids_ok_def list_all_iff)
        moreover from e(1,2) small have "uint32_of_int (entry_point_id h) = nat (entry_point_id h)"
          by (intro uint32_of_int_small) simp_all
        ultimately show False using False by simp
      qed
    qed
  next
    case True
    let ?r = "rescan ?D (nodes h) (- 1) (- 1)"
    from True have md: "mark_deleted h i = h\<lparr>deleted_nodes := ?D, entry_point_id := ?r\<rparr>"
      by (simp add: mark_deleted_def Let_def)
    from rescan_result [of ?D "nodes h" "- 1" "- 1"] show ?thesis
    proof
      assume "rescan_kept ?D (nodes h) (- 1) (- 1)"
      then have r: "?r = - 1"
        and none: "\<And>n. n \<in> set (nodes h) \<Longrightarrow> node_id n \<in> ?D \<or> max_layer n \<le> - 1"
        by (simp_all add: rescan_kept_def list_all_iff)
      have dead: "node_id n \<in> ?D" if "n \<in> set (nodes h)" for n
        using none [OF that] ids_ok_node [OF ids that] by auto
      show ?thesis
      proof (rule entry_point_okI)
        fix n assume "n \<in> set (nodes (mark_deleted h i))"
          and "node_id n \<notin> deleted_nodes (mark_deleted h i)"
        with md dead [of n] show "0 \<le> entry_point_id (mark_deleted h i)
          \<and> nat (entry_point_id (mark_deleted h i)) < length (nodes (mark_deleted h i))
          \<and> node_id (nodes (mark_deleted h i) ! nat (entry_point_id (mark_deleted h i)))
              \<notin> deleted_nodes (mark_deleted h i)
          \<and> max_layer n \<le> max_layer (nodes (mark_deleted h i) ! nat (entry_point_id (mark_deleted h i)))"
          by simp
      next
        from md r show "entry_point_id (mark_deleted h i) = - 1" by simp
      qed
    next
      assume "\<exists>m. rescan_found ?D (nodes h) (- 1) (- 1) m"
      then obtain m where m: "m \<in> set (nodes h)" "node_id m \<notin> ?D"
        and r: "?r = int_of_uint32 (node_id m)"
        and top: "\<And>n. n \<in> set (nodes h) \<Longrightarrow> node_id n \<in> ?D \<or> max_layer n \<le> max_layer m"
        by (auto simp: rescan_found_def list_all_iff)
      from ids_ok_node [OF ids m(1)] have im: "node_id m < length (nodes h)"
        "nodes h ! node_id m = m" by simp_all
      with small have r': "?r = int (node_id m)"
        using r by (simp add: int_of_uint32_small)
      show ?thesis
      proof (rule entry_point_okI)
        fix n assume "n \<in> set (nodes (mark_deleted h i))"
          and "node_id n \<notin> deleted_nodes (mark_deleted h i)"
        with md have "n \<in> set (nodes h)" "node_id n \<notin> ?D" by simp_all
        with top [of n] have "max_layer n \<le> max_layer m" by simp
        with md r' im m(2) show "0 \<le> entry_point_id (mark_deleted h i)
          \<and> nat (entry_point_id (mark_deleted h i)) < length (nodes (mark_deleted h i))
          \<and> node_id (nodes (mark_deleted h i) ! nat (entry_point_id (mark_deleted h i)))
              \<notin> deleted_nodes (mark_deleted h i)
          \<and> max_layer n \<le> max_layer (nodes (mark_deleted h i) ! nat (entry_point_id (mark_deleted h i)))"
          by simp
      next
        assume "\<And>n. n \<in> set (nodes (mark_deleted h i)) \<Longrightarrow> node_id n \<in> deleted_nodes (mark_deleted h i)"
        from this [of m] md m show "entry_point_id (mark_deleted h i) = - 1" by simp
      qed
    qed
  qed
qed

lemma insert_keeps_entry_point:
  assumes ids: "ids_ok h" and ok: "entry_point_ok h" and room: "Suc (length (nodes h)) < 2 ^ 31"
    and ins: "HNSW_insert h sq level vec meta = (Inr i, h')"
  shows "i = length (nodes h) \<and> ids_ok h' \<and> entry_point_ok h'"
proof -
  let ?k = "length (nodes h)"
  let ?node = "\<lparr>node_id = ?k, max_layer = int level, neighbors = replicate (nat (int level + 1)) []\<rparr>"
  from ids have lv: "length (vectors (vector_storage h)) = ?k"
    by (simp add: ids_ok_def)
  with room have new_id: "uint32_of_size_t (length (vectors (vector_storage h))) = ?k"
    by (simp add: uint32_of_size_t_def)
  from room have conv: "int_of_uint32 ?k = int ?k"
    by (simp add: int_of_uint32_small)
  have node: "Node_new ?k (int level) = Inr ?node"
    by (simp add: Node_new_def)
  from ins obtain vs where av: "add_vector (vector_storage h) sq vec meta = (Inr (), vs)"
    by (auto simp: HNSW_insert_def Let_def split: prod.splits sum.splits)
  with lv have vs: "length (vectors vs) = Suc ?k"
    by (auto dest: add_vector_Inr)
  let ?h1 = "h\<lparr>vector_storage := vs, nodes := nodes h @ [?node]\<rparr>"
  have app_ids: "ids_ok (?h1\<lparr>entry_point_id := e\<rparr>)" for e
    using appended_ids_ok [OF ids room vs, of ?node e] by simp
  have app_ok: "entry_point_ok (?h1\<lparr>entry_point_id := e\<rparr>)"
    if "if entry_point_id h = - 1 \<or> max_layer ?node > max_layer (nodes h ! nat (entry_point_id h))
        then e = int ?k else e = entry_point_id h" for e
    using appended_entry_point_ok [OF ids ok _ that, of vs] by simp
  show ?thesis
  proof (cases "entry_point_id h = - 1")
    case True
    with ins av node new_id conv have "i = ?k" and h': "h' = ?h1\<lparr>entry_point_id := int ?k\<rparr>"
      by (auto simp: HNSW_insert_def Let_def)
    with app_ids [of "int ?k"] app_ok [of "int ?k"] True show ?thesis by simp
  next
    case False
    with ins av node new_id obtain h2 ep where
      link: "link_new_node ?h1 sq ?k (int level) vec = Inr h2"
      and ep: "vec_at (nodes h2) (size_t_of_int (entry_point_id h2)) = Inr ep"
      and i: "i = ?k"
      and h': "h' = (if int level > max_layer ep then h2\<lparr>entry_point_id := int_of_uint32 ?k\<rparr> else h2)"
      by (auto simp: HNSW_insert_def Let_def split: sum.splits)
    from link have fr: "frame h2 = frame ?h1"
      by (rule link_new_node_frame)
    then have e2: "entry_point_id h2 = entry_point_id h"
      by (simp add: frame_def)
    from ok False have e0: "0 \<le> entry_point_id h" "nat (entry_point_id h) < ?k"
      by (auto simp: entry_point_ok_def split: if_splits)
    with room have "size_t_of_int (entry_point_id h) = nat (entry_point_id h)"
      by (intro size_t_of_int_small) simp_all
    with ep e2 have "ep = nodes h2 ! nat (entry_point_id h)"
      by (auto simp: vec_at_def split: if_splits)
    with frame_nodes(3) [OF fr, of "nat (entry_point_id h)"] e0
    have mep: "max_layer ep = max_layer (nodes h ! nat (entry_point_id h))"
      by (simp add: nth_append)
    let ?e = "if int level > max_layer ep then int ?k else entry_point_id h"
    from h' e2 conv have "h' = h2\<lparr>entry_point_id := ?e\<rparr>"
      by auto
    with fr have "frame h' = frame (?h1\<lparr>entry_point_id := ?e\<rparr>)"
      by (simp add: frame_def)
    then have "ids_ok h' = ids_ok (?h1\<lparr>entry_point_id := ?e\<rparr>)"
      and "entry_point_ok h' = entry_point_ok (?h1\<lparr>entry_point_id := ?e\<rparr>)"
      by (rule ids_ok_cong, rule entry_point_ok_cong)
    moreover have "entry_point_ok (?h1\<lparr>entry_point_id := ?e\<rparr>)"
      using False mep by (intro app_ok) simp
    ultimately show ?thesis
      using i app_ids [of ?e] by simp
  qed
qed

subsection \<open>C4: read-only mode\<close>

text \<open>
  Claim C4: on a read-only database each of \<^verbatim>\<open>insert\<close>, \<^verbatim>\<open>update_vector\<close>,
  \<^verbatim>\<open>delete_vector\<close>, \<^verbatim>\<open>rebuild_index\<close> and \<^verbatim>\<open>save\<close> fails with the read-only violation
  and leaves the database as it was. \<^verbatim>\<open>query\<close> is not guarded: it is the query of the
  index, which returns no new state and never fails with the read-only violation; on an
  index that is \<open>searchable\<close> it returns a list of results for every \<open>k\<close> below \<open>2^31\<close>.
\<close>

theorem read_only_database:
  "db_read_only db \<Longrightarrow>
     Database_insert db level vec meta = (Inl ReadOnlyViolation, db) \<and>
     Database_update_vector db level i vec meta = (Inl ReadOnlyViolation, db) \<and>
     Database_delete_vector db i = (Inl ReadOnlyViolation, db) \<and>
     Database_rebuild_index db levels = (Inl ReadOnlyViolation, db) \<and>
     Database_save db sync_mode fs = (Inl ReadOnlyViolation, db) \<and>
     Database_query db query k flt inc
       = k_nearest_neighbors (db_hnsw db) (db_sq db) query k flt inc \<and>
     Database_query db query k flt inc \<noteq> Inl ReadOnlyViolation \<and>
     (searchable (db_hnsw db) (db_sq db) query \<and> k < 2 ^ 31 \<longrightarrow>
        (\<exists>rs. Database_query db query k flt inc = Inr rs))"
proof -
  assume ro: "db_read_only db"
  have "Database_query db query k flt inc \<noteq> Inl ReadOnlyViolation"
    by (auto simp: Database_query_def search_error_def dest: k_nearest_neighbors_error)
  moreover have "searchable (db_hnsw db) (db_sq db) query \<and> k < 2 ^ 31 \<longrightarrow>
        (\<exists>rs. Database_query db query k flt inc = Inr rs)"
    by (simp add: Database_query_def k_nearest_neighbors_defined)
  ultimately show ?thesis
    using ro
    by (simp add: Database_insert_def Database_update_vector_def Database_delete_vector_def
        Database_rebuild_index_def Database_save_def Database_query_def)
qed

text \<open>Claim C4, witness: a read-only database of one node; its query returns the node.\<close>

theorem read_only_database_witness:
  "db_read_only read_only_db
   \<and> searchable (db_hnsw read_only_db) (db_sq read_only_db) [1]
   \<and> Database_insert read_only_db 0 [1] fmempty = (Inl ReadOnlyViolation, read_only_db)
   \<and> Database_update_vector read_only_db 0 0 [1] fmempty = (Inl ReadOnlyViolation, read_only_db)
   \<and> Database_delete_vector read_only_db 0 = (Inl ReadOnlyViolation, read_only_db)
   \<and> Database_rebuild_index read_only_db (\<lambda>n. 0) = (Inl ReadOnlyViolation, read_only_db)
   \<and> Database_save read_only_db FULL no_files = (Inl ReadOnlyViolation, read_only_db)
   \<and> Database_query read_only_db [1] 1 None {ID}
       = Inr [\<lparr>qr_id = 0, qr_distance = None, qr_metadata = fmempty, qr_vector = []\<rparr>]"
proof -
  have ro: "db_read_only read_only_db"
    by (simp add: read_only_db_def)
  have q: "Database_query read_only_db [1] 1 None {ID}
       = Inr [\<lparr>qr_id = 0, qr_distance = None, qr_metadata = fmempty, qr_vector = []\<rparr>]"
    unfolding read_only_db_def single_node_index_eq
    by (simp add: Database_query_def eval_defs)
  have wf: "searchable (db_hnsw read_only_db) (db_sq read_only_db) [1]"
    unfolding read_only_db_def single_node_index_eq
    by (simp add: searchable_def distances_defined_def layer_ok_def)
  from read_only_database [OF ro, of 0 "[1]" fmempty 0 "\<lambda>n. 0" FULL no_files "[1]" 1 None "{ID}"]
    ro q wf
  show ?thesis by simp
qed

subsection \<open>C5: a vector of the wrong dimension\<close>

text \<open>
  Claim C5: for every vector whose length differs from the dimension of the index,
  \<^verbatim>\<open>insert\<close> fails with the dimension mismatch and the index is exactly as before.
\<close>

theorem insert_dimension_mismatch:
  "length vec \<noteq> vector_dimension (vector_storage h) \<Longrightarrow>
     HNSW_insert h sq level vec meta = (Inl DimensionMismatch, h)"
  by (simp add: HNSW_insert_def add_vector_def)

text \<open>Claim C5, witness: the insertion of \<^verbatim>\<open>test_vector_dimension_enforcement\<close>.\<close>

theorem insert_dimension_mismatch_witness:
  "length [1, 2, 3 :: real] \<noteq> vector_dimension (vector_storage (HNSW_new 2 5 10 10 L2)) \<and>
   HNSW_insert (HNSW_new 2 5 10 10 L2) None 0 [1, 2, 3] fmempty
     = (Inl DimensionMismatch, HNSW_new 2 5 10 10 L2)"
  using insert_dimension_mismatch [of "[1, 2, 3]" "HNSW_new 2 5 10 10 L2" None 0 fmempty]
  by (simp add: HNSW_new_def VectorStorage_new_def)

text \<open>The facade passes the failure on when the database is writable.\<close>

lemma database_insert_dimension_mismatch:
  "\<not> db_read_only db \<Longrightarrow> length vec \<noteq> vector_dimension (vector_storage (db_hnsw db)) \<Longrightarrow>
     Database_insert db level vec meta = (Inl DimensionMismatch, db)"
  by (simp add: Database_insert_def HNSW_insert_def add_vector_def)

subsection \<open>C6: the bound M on the neighbour lists\<close>

text \<open>
  Claim C6 is what the code aims at and its test asserts, but the scan for the furthest
  neighbour starts from \<^verbatim>\<open>max_dist = -1.0f\<close>: under the inner-product metric every
  distance can lie below \<open>-1\<close>, then no index is found and nothing is erased. After four
  insertions of the vector \<open>(2)\<close> with \<open>M = 2\<close>, all at level 0, the nodes 0 and 1 have
  three neighbours at layer 0.
\<close>

theorem ip_metric_exceeds_M:
  "M ip_index = 2
   \<and> map neighbors (nodes ip_index) = [[[1, 2, 3]], [[0, 2, 3]], [[0, 1]], [[0, 1]]]
   \<and> int (length (neighbors (nodes ip_index ! 0) ! 0)) > M ip_index
   \<and> int (length (neighbors (nodes ip_index ! 1) ! 0)) > M ip_index"
  by (simp add: ip_index_eq)

text \<open>
  The pruning step of \<^verbatim>\<open>insert\<close>: when every distance lies above \<open>-1\<close>, a neighbour
  whose list held at most \<open>M\<close> ids holds at most \<open>M\<close> ids again after the new node has
  been linked to it.
\<close>

lemma connect_restores_bound:
  assumes con: "connect h sq new_id layer nb = Inr h'"
    and other: "size_t_of_int nb \<noteq> new_id"
    and m: "0 \<le> M h" "M h < 2 ^ 31"
    and above: "\<And>v c d. calculate_distance h sq v c = Inr d \<Longrightarrow> - 1 < d"
    and before: "neighbors_at (nodes h) nb layer = Inr l" "length l \<le> nat (M h)"
  shows "\<exists>l'. neighbors_at (nodes h') nb layer = Inr l' \<and> length l' \<le> nat (M h')"
proof -
  from con obtain h1 h2 l2 where
    m1: "modify_neighbors h new_id (size_t_of_int layer) (\<lambda>l. l @ [nb]) = Inr h1"
    and m2: "modify_neighbors h1 (size_t_of_int nb) (size_t_of_int layer)
        (\<lambda>l. l @ [int_of_uint32 new_id]) = Inr h2"
    and n2': "neighbors_at (nodes h2) nb layer = Inr l2"
    and fin: "if length l2 > size_t_of_int (M h2)
       then \<exists>v r. furthest_scan h2 sq v l2 0 (- 1) (- 1) = Inr r
            \<and> (if r \<noteq> - 1
                then modify_neighbors h2 (size_t_of_int nb) (size_t_of_int layer) (erase_at r) = Inr h'
                else h' = h2)
       else h' = h2"
    by (rule connect_Inr)
  note a1 = modify_neighbors_at [OF m1] and a2 = modify_neighbors_at [OF m2]
  from a1(4) [of nb layer] other before(1) have n1: "neighbors_at (nodes h1) nb layer = Inr l"
    by simp
  with a2(4) [of nb layer] n2' have l2: "l2 = l @ [int_of_uint32 new_id]"
    by simp
  from a1(1-3) a2(1-3) have same: "vector_storage h2 = vector_storage h"
    "distance_metric h2 = distance_metric h" "M h2 = M h"
    by simp_all
  from m have sz: "size_t_of_int (M h) = nat (M h)"
    by (rule size_t_of_int_small)
  show ?thesis
  proof (cases "length l2 > nat (M h)")
    case False
    with fin same(3) sz have "h' = h2" by simp
    with n2' False same(3) show ?thesis by simp
  next
    case True
    with fin same(3) sz obtain v r where
      sc: "furthest_scan h2 sq v l2 0 (- 1) (- 1) = Inr r"
      and last: "if r \<noteq> - 1
                then modify_neighbors h2 (size_t_of_int nb) (size_t_of_int layer) (erase_at r) = Inr h'
                else h' = h2"
      by auto
    from sc same(1,2) have sc': "furthest_scan h sq v l2 0 (- 1) (- 1) = Inr r"
      by (simp add: furthest_scan_cong [of h2 h])
    obtain c cs where lc: "l2 = c # cs"
      using l2 by (cases l) auto
    with sc' obtain d where d: "calculate_distance h sq v c = Inr d"
      by (cases "calculate_distance h sq v c") simp_all
    from above [OF d] have "\<not> d \<le> - 1" by simp
    with furthest_scan_result [OF sc'] lc d have r: "0 \<le> r" "r < int (length l2)"
      by auto
    with last have m3: "modify_neighbors h2 (size_t_of_int nb) (size_t_of_int layer) (erase_at r) = Inr h'"
      by simp
    from modify_neighbors_at(4) [OF m3, of nb layer] modify_neighbors_at(3) [OF m3] n2'
    have "neighbors_at (nodes h') nb layer = Inr (erase_at r l2)" and "M h' = M h2"
      by simp_all
    moreover from r before(2) l2 have "length (erase_at r l2) \<le> nat (M h)"
      by (simp add: erase_at_def)
    ultimately show ?thesis using same(3) by simp
  qed
qed

text \<open>Under the metric L2, and under any metric once the quantizer is trained, the
  distances are sums of squares and the pruning does restore the bound.\<close>

lemma connect_restores_bound_l2:
  assumes "connect h sq new_id layer nb = Inr h'"
    and "size_t_of_int nb \<noteq> new_id"
    and "0 \<le> M h" "M h < 2 ^ 31"
    and "distance_metric h = L2 \<or> (\<exists>q. sq = Some q \<and> is_trained q)"
    and "neighbors_at (nodes h) nb layer = Inr l" "length l \<le> nat (M h)"
  shows "\<exists>l'. neighbors_at (nodes h') nb layer = Inr l' \<and> length l' \<le> nat (M h')"
proof (rule connect_restores_bound [OF assms(1-4) _ assms(6,7)])
  fix v c d assume "calculate_distance h sq v c = Inr d"
  from l2_distance_nonneg [OF this assms(5)] show "- 1 < d" by simp
qed

subsection \<open>C7: save followed by load\<close>

lemma quantized_db_constructed:
  "Database_new no_files ''db'' 2 16 200 50 L2 False 0 True = Inr quantized_db"
  by (simp add: quantized_db_def Database_new_def set_quantizer_def HNSW_new_def
      VectorStorage_new_def Let_def)

text \<open>Whatever \<^verbatim>\<open>ScalarQuantizer::load\<close> reads, the quantizer it leaves has bounds of
  length \<^verbatim>\<open>original_dim_\<close>.\<close>

lemma read_n_length: "read_n rd n f = Inr (xs, f') \<Longrightarrow> length xs = n"
  by (induction n arbitrary: f xs) (auto split: sum.splits prod.splits)

lemma sq_load_bounds:
  "sq_load f = Inr (q, f') \<Longrightarrow>
     length (mins q) = original_dim q \<and> length (maxs q) = original_dim q"
  by (auto simp: sq_load_def split: sum.splits prod.splits dest: read_n_length)

text \<open>
  Claim C7 fails on a database whose quantizer is enabled and not yet trained:
  \<^verbatim>\<open>ScalarQuantizer::save\<close> writes \<^verbatim>\<open>original_dim_\<close> floats from the empty \<^verbatim>\<open>mins_\<close>, a
  read out of bounds. The database below is the one the constructor returns for
  \<^verbatim>\<open>sq_enabled = true\<close> and dimension 2.
\<close>

theorem save_untrained_quantizer:
  "Database_new no_files ''db'' 2 16 200 50 L2 False 0 True = Inr quantized_db
   \<and> db_sq quantized_db = Some \<lparr>original_dim = 2, mins = [], maxs = []\<rparr>
   \<and> Database_save quantized_db FULL no_files = (Inl OutOfBounds, quantized_db)"
proof -
  have "db_sq quantized_db = Some \<lparr>original_dim = 2, mins = [], maxs = []\<rparr>"
    by (simp add: quantized_db_def ScalarQuantizer_new_def)
  moreover have "Database_save quantized_db FULL no_files = (Inl OutOfBounds, quantized_db)"
    by (simp add: Database_save_def save_contents_def sq_save_def write_floats_def
        quantized_db_def ScalarQuantizer_new_def)
  ultimately show ?thesis
    using quantized_db_constructed by simp
qed

text \<open>
  On every other database the round trip holds: when the quantizer is absent or has
  bounds of its dimension, \<^verbatim>\<open>save\<close> succeeds, and \<^verbatim>\<open>load\<close> into a database of the same
  path (one without a quantizer when the saved one had none) restores the quantizer, the
  nodes with their adjacency lists, the vectors, the metadata, the deleted set and the
  parameters.
\<close>

lemma save_load_roundtrip:
  assumes st: "storable db" and rw: "\<not> db_read_only db"
    and path: "db_path db0 = db_path db"
    and nosq: "db_sq db = None \<Longrightarrow> db_sq db0 = None"
  shows "\<exists>contents h'.
      Database_save db sync_mode fs = (Inr (fs(db_path db \<mapsto> contents)), db)
      \<and> Database_load db0 (fs(db_path db \<mapsto> contents))
          = (Inr (), db0\<lparr>db_sq := db_sq db, db_hnsw := h'\<rparr>)
      \<and> nodes h' = nodes (db_hnsw db)
      \<and> vectors (vector_storage h') = vectors (vector_storage (db_hnsw db))
      \<and> metadata (vector_storage h') = metadata (vector_storage (db_hnsw db))
      \<and> vector_dimension (vector_storage h') = vector_dimension (vector_storage (db_hnsw db))
      \<and> deleted_nodes h' = deleted_nodes (db_hnsw db)
      \<and> M h' = M (db_hnsw db) \<and> efConstruction h' = efConstruction (db_hnsw db)
      \<and> efSearch h' = efSearch (db_hnsw db)
      \<and> distance_metric h' = distance_metric (db_hnsw db)"
proof -
  let ?h = "db_hnsw db"
  let ?contents = "FBool (db_sq db \<noteq> None)
          # (case db_sq db of None \<Rightarrow> [] | Some q \<Rightarrow> quantizer_fields q) @ index_fields ?h"
  from st have enc: "encodes (db_sq db) (vector_dimension (vector_storage ?h))"
    by (simp add: storable_def encodes_def Let_def)
  from st have wf: "list_all (\<lambda>v. length v = vector_dimension (vector_storage ?h))
        (vectors (vector_storage ?h))"
      "length (metadata (vector_storage ?h)) = length (vectors (vector_storage ?h))"
      "list_all wf_node (nodes ?h)"
      "distance_metric ?h = metric_of_int (metric_to_int (distance_metric ?h))"
      "finite (deleted_nodes ?h)"
    by (simp_all add: storable_def Let_def)
  from load_index_fields [OF enc wf, of "db_sq db \<noteq> None"] obtain h' where
    li: "load_index (db_sq db) (db_sq db \<noteq> None) (index_fields ?h) = Inr h'"
    and same: "nodes h' = nodes ?h"
      "vectors (vector_storage h') = vectors (vector_storage ?h)"
      "metadata (vector_storage h') = metadata (vector_storage ?h)"
      "vector_dimension (vector_storage h') = vector_dimension (vector_storage ?h)"
      "deleted_nodes h' = deleted_nodes ?h"
      "M h' = M ?h" "efConstruction h' = efConstruction ?h" "efSearch h' = efSearch ?h"
      "distance_metric h' = distance_metric ?h"
    by blast
  have save: "Database_save db sync_mode fs = (Inr (fs(db_path db \<mapsto> ?contents)), db)"
    using rw by (simp add: Database_save_def save_contents_fields [OF st])
  have load: "Database_load db0 (fs(db_path db \<mapsto> ?contents))
      = (Inr (), db0\<lparr>db_sq := db_sq db, db_hnsw := h'\<rparr>)"
  proof (cases "db_sq db")
    case None
    with nosq have "db_sq db0 = None" by simp
    with None li path show ?thesis
      by (simp add: Database_load_def)
  next
    case (Some q)
    with st have "length (mins q) = original_dim q" "length (maxs q) = original_dim q"
      by (simp_all add: storable_def Let_def)
    then have "sq_load (quantizer_fields q @ index_fields ?h) = Inr (q, index_fields ?h)"
      by (rule sq_load_fields)
    with Some li path show ?thesis
      by (simp add: Database_load_def)
  qed
  from save load same show ?thesis by blast
qed

subsection \<open>C8: the descent of an insertion\<close>

text \<open>
  Claim C8, as stated, fails: in \<open>descent_index\<close> the descent for the new vector
  \<open>(3, 3)\<close> has the layers 2 and 1 to visit; the search of layer 2 returns nothing, and
  the loop ends there without searching layer 1, where the loop of the specification
  goes on.
\<close>

theorem descend_stops_counterexample:
  "layers_down (max_layer (nodes descent_index ! 1)) 0 = [2, 1]
   \<and> search_layer descent_index None [3, 3] 1 1 2 None = Inr []
   \<and> descend descent_index None [3, 3] [2, 1] 1 = (Inr 1, [2])
   \<and> descend_continuing descent_index None [3, 3] [2, 1] 1 = (Inr 1, [2, 1])"
  by (simp add: descent_index_def eval_defs)

text \<open>
  Claim C8, amended: when \<^verbatim>\<open>search_layer\<close> returns an empty result during the descent,
  the current node is left unchanged and the descent ends at that layer; the node it
  reaches is the one the descent would reach by going on through the remaining layers.
\<close>

theorem descend_break:
  "fst (descend h sq vec layers ep) = fst (descend_continuing h sq vec layers ep) \<and>
   (search_layer h sq vec ep 1 layer None = Inr [] \<longrightarrow>
      descend h sq vec (layer # layers) ep = (Inr ep, [layer]))"
proof
  show "fst (descend h sq vec layers ep) = fst (descend_continuing h sq vec layers ep)"
  proof (induction layers arbitrary: ep)
    case Nil
    show ?case by simp
  next
    case (Cons l ls)
    show ?case
    proof (cases "search_layer h sq vec ep 1 l None")
      case (Inl e)
      then show ?thesis by simp
    next
      case (Inr found)
      show ?thesis
      proof (cases found)
        case Nil
        with Inr have "uint32_of_int ep \<in> deleted_nodes h"
          by (auto dest: search_layer_empty_result)
        moreover from Inr obtain d where "calculate_distance h sq vec ep = Inr d"
          by (auto dest: search_layer_Inr_distance)
        ultimately have "fst (descend_continuing h sq vec ls ep) = Inr ep"
          by (rule descend_continuing_tombstoned)
        with Inr Nil show ?thesis by (cases "descend_continuing h sq vec ls ep") simp
      next
        case (Cons c cs)
        with Inr Cons.IH [of c] show ?thesis
          by (cases "descend h sq vec ls c"; cases "descend_continuing h sq vec ls c") simp
      qed
    qed
  qed
next
  show "search_layer h sq vec ep 1 layer None = Inr [] \<longrightarrow>
      descend h sq vec (layer # layers) ep = (Inr ep, [layer])"
    by simp
qed

text \<open>Claim C8, witness: the descent in \<open>descent_index\<close>, entered at the tombstoned
  node 1 at layer 2 with layer 1 remaining.\<close>

theorem descend_break_witness:
  "search_layer descent_index None [3, 3] 1 1 2 None = Inr []
   \<and> fst (descend descent_index None [3, 3] [1] 1)
       = fst (descend_continuing descent_index None [3, 3] [1] 1)
   \<and> descend descent_index None [3, 3] (2 # [1]) 1 = (Inr 1, [2])"
proof -
  have "search_layer descent_index None [3, 3] 1 1 2 None = Inr []"
    by (simp add: descent_index_def eval_defs)
  with descend_break [of descent_index None "[3, 3]" "[1]" 1 2] show ?thesis by simp
qed

subsection \<open>C9: the untrained quantizer\<close>

text \<open>
  Claim C9: on a quantizer whose \<^verbatim>\<open>mins_\<close> is empty, \<^verbatim>\<open>encode\<close> and \<^verbatim>\<open>decode\<close> fail
  with the quantizer-not-trained error, and \<^verbatim>\<open>train\<close> on an empty collection returns the
  quantizer as it was, still untrained.
\<close>

theorem untrained_quantizer:
  "mins q = [] \<Longrightarrow>
     encode q v = Inl QuantizerNotTrained \<and> decode q b = Inl QuantizerNotTrained \<and>
     train q [] = Inr q \<and> \<not> is_trained q"
  by (simp add: encode_def decode_def train_def is_trained_def)

text \<open>Claim C9, witness: a new quantizer of dimension 4.\<close>

theorem untrained_quantizer_witness:
  "mins (ScalarQuantizer_new 4) = [] \<and>
   encode (ScalarQuantizer_new 4) [1, 1, 1, 1] = Inl QuantizerNotTrained \<and>
   decode (ScalarQuantizer_new 4) [0, 0, 0, 0] = Inl QuantizerNotTrained \<and>
   train (ScalarQuantizer_new 4) [] = Inr (ScalarQuantizer_new 4) \<and>
   \<not> is_trained (ScalarQuantizer_new 4)"
  using untrained_quantizer [of "ScalarQuantizer_new 4" "[1, 1, 1, 1]" "[0, 0, 0, 0]"]
  by (simp add: ScalarQuantizer_new_def)

subsection \<open>C10: a read-only database over a missing file\<close>

text \<open>
  Claim C10: when the file at the path does not exist or cannot be opened, the
  constructor with \<^verbatim>\<open>read_only = true\<close> raises nothing and returns a database with no
  node, no vector, an empty deleted set and no entry point, and every query on it returns
  the empty list.
\<close>

theorem read_only_missing_file:
  "fs path = None \<Longrightarrow>
     (\<exists>db. Database_new fs path d m efc efs metric True cache_size_mb sq_enabled = Inr db \<and>
        nodes (db_hnsw db) = [] \<and> vectors (vector_storage (db_hnsw db)) = [] \<and>
        deleted_nodes (db_hnsw db) = {} \<and> entry_point_id (db_hnsw db) = - 1 \<and>
        (\<forall>query k flt inc. Database_query db query k flt inc = Inr []))"
  by (simp add: Database_new_def Database_load_def Database_query_def k_nearest_neighbors_def
      HNSW_new_def VectorStorage_new_def set_quantizer_def Let_def)

text \<open>Claim C10, witness: no file at all, and the parameters of the read-only tests.\<close>

theorem read_only_missing_file_witness:
  "no_files ''db'' = None \<and>
   (\<exists>db. Database_new no_files ''db'' 2 16 200 50 L2 True 0 False = Inr db \<and>
      nodes (db_hnsw db) = [] \<and> vectors (vector_storage (db_hnsw db)) = [] \<and>
      deleted_nodes (db_hnsw db) = {} \<and> entry_point_id (db_hnsw db) = - 1 \<and>
      (\<forall>query k flt inc. Database_query db query k flt inc = Inr []))"
  using read_only_missing_file [of no_files "''db''" 2 16 200 50 L2 0 False]
  by (simp add: no_files_def)

end
